theory Spec2Isabelle
  imports Complex_Main "HOL-Library.Word"
begin

section \<open>Entities (DUNE/Tasks/Entity.hpp)\<close>

text \<open>
  The header declares the class \<^verbatim>\<open>DUNE::Tasks::Entity\<close>: its fields, its inline
  accessors and the private enumeration \<^verbatim>\<open>NextActivationState\<close>. The enumerations of
  the IMC messages the fields hold are named after the constants the header uses.
\<close>

datatype StateEnum = ESTA_BOOT | ESTA_NORMAL | ESTA_ERROR | ESTA_FAULT

datatype ActivationStateEnum = EAS_INACTIVE | EAS_ACT_IP | EAS_ACTIVE | EAS_DEACT_IP

datatype NextActivationState = NAS_SAME | NAS_ACTIVE | NAS_INACTIVE

text \<open>What an entity publishes through its owner: entity state and activation state reports.\<close>

datatype detail = Code nat | Message string

datatype report =
    EntityStateReport nat StateEnum detail
  | EntityActivationReport nat ActivationStateEnum

text \<open>
  \<^verbatim>\<open>m_entity_state\<close> is kept as its two fields, the state and the description;
  \<^verbatim>\<open>m_entity_state_code\<close> is the \<^verbatim>\<open>int\<close> of the header, with -1 for none.
  \<^verbatim>\<open>m_owner\<close> is only ever used to publish, so the owner is represented by the list of
  reports published so far.
\<close>

record Entity =
  m_id :: nat
  m_label :: string
  m_entity_state :: StateEnum
  m_entity_description :: string
  m_entity_state_code :: int
  m_act_state :: ActivationStateEnum
  m_next_act_state :: NextActivationState
  published :: "report list"

text \<open>
  The constructor of the header. The value of \<^verbatim>\<open>DUNE_IMC_CONST_UNK_EID\<close> and the state
  that a new \<^verbatim>\<open>IMC::EntityState\<close> holds are not among the sources: they are parameters.
\<close>

definition Entity_new :: "nat \<Rightarrow> StateEnum \<Rightarrow> Entity" where
  "Entity_new unk_eid state0 =
     \<lparr>m_id = unk_eid, m_label = [], m_entity_state = state0, m_entity_description = [],
      m_entity_state_code = - 1, m_act_state = EAS_INACTIVE, m_next_act_state = NAS_SAME,
      published = []\<rparr>"

definition getState :: "Entity \<Rightarrow> StateEnum" where
  "getState e = m_entity_state e"

definition isActive :: "Entity \<Rightarrow> bool" where
  "isActive e = (m_act_state e = EAS_ACTIVE)"

definition isActivating :: "Entity \<Rightarrow> bool" where
  "isActivating e = (m_act_state e = EAS_ACT_IP)"

definition isDeactivating :: "Entity \<Rightarrow> bool" where
  "isDeactivating e = (m_act_state e = EAS_DEACT_IP)"

definition getActivationState :: "Entity \<Rightarrow> ActivationStateEnum" where
  "getActivationState e = m_act_state e"

text \<open>
  Modelled from the spec: the body of \<^verbatim>\<open>Entity::setState(state, code)\<close> is in Entity.cpp,
  which is not among the sources. The specification says that it updates the operational
  state, suppresses the outward report when the pair (state, code) is unchanged from the
  last report, and never fails. A status code is an enumeration value, a natural number.
\<close>

definition setState :: "StateEnum \<Rightarrow> nat \<Rightarrow> Entity \<Rightarrow> Entity" where
  "setState state code e =
     (if m_entity_state e = state \<and> m_entity_state_code e = int code then e
      else e\<lparr>m_entity_state := state,
             m_entity_state_code := int code,
             published := published e @ [EntityStateReport (m_id e) state (Code code)]\<rparr>)"

text \<open>
  Modelled from the spec: \<^verbatim>\<open>Entity::setState(state, message)\<close>, also in Entity.cpp. The
  free-text variant caches no code (-1); a report is a duplicate when the state and the
  text are those of the last report and that report carried no code.
\<close>

definition setStateMsg :: "StateEnum \<Rightarrow> string \<Rightarrow> Entity \<Rightarrow> Entity" where
  "setStateMsg state message e =
     (if m_entity_state e = state \<and> m_entity_state_code e = - 1
         \<and> m_entity_description e = message then e
      else e\<lparr>m_entity_state := state,
             m_entity_description := message,
             m_entity_state_code := - 1,
             published := published e @ [EntityStateReport (m_id e) state (Message message)]\<rparr>)"

text \<open>
  The functions \<^verbatim>\<open>reportActivationState\<close>, \<^verbatim>\<open>requestActivation\<close>,
  \<^verbatim>\<open>requestDeactivation\<close>, \<^verbatim>\<open>succeedActivation\<close>, \<^verbatim>\<open>failActivation\<close>,
  \<^verbatim>\<open>succeedDeactivation\<close> and \<^verbatim>\<open>failDeactivation\<close> are declared in the header and
  defined in Entity.cpp, which is not among the sources. The specification: transitions
  form the cycle Inactive, Activating, Active (or Inactive on failure), Deactivating,
  Inactive (or Active on failure), with at most one transition in flight; a request made
  while a transition is in flight overwrites the one pending slot; a failure sets the
  operational state to Error with the reason; the retained request is acted on once the
  transition in flight resolves.
\<close>

definition in_flight :: "Entity \<Rightarrow> bool" where
  "in_flight e = (isActivating e \<or> isDeactivating e)"

text \<open>
  Modelled from the spec: \<^verbatim>\<open>Entity::reportActivationState\<close> (Entity.cpp is missing)
  emits the current activation state outward.
\<close>

definition reportActivationState :: "Entity \<Rightarrow> Entity" where
  "reportActivationState e =
     e\<lparr>published := published e @ [EntityActivationReport (m_id e) (m_act_state e)]\<rparr>"

text \<open>
  Modelled from the spec: \<^verbatim>\<open>Entity::requestActivation\<close> (Entity.cpp is missing). In
  flight, the request overwrites the pending slot; at rest, an inactive entity starts
  activating.
\<close>

definition requestActivation :: "Entity \<Rightarrow> Entity" where
  "requestActivation e =
     (if in_flight e then e\<lparr>m_next_act_state := NAS_ACTIVE\<rparr>
      else if m_act_state e = EAS_INACTIVE
        then reportActivationState (e\<lparr>m_act_state := EAS_ACT_IP\<rparr>)
      else e)"

text \<open>
  Modelled from the spec: \<^verbatim>\<open>Entity::requestDeactivation\<close> (Entity.cpp is missing). In
  flight, the request overwrites the pending slot; at rest, an active entity starts
  deactivating.
\<close>

definition requestDeactivation :: "Entity \<Rightarrow> Entity" where
  "requestDeactivation e =
     (if in_flight e then e\<lparr>m_next_act_state := NAS_INACTIVE\<rparr>
      else if m_act_state e = EAS_ACTIVE
        then reportActivationState (e\<lparr>m_act_state := EAS_DEACT_IP\<rparr>)
      else e)"

text \<open>
  Modelled from the spec: what the four outcomes in the missing Entity.cpp do with the
  pending slot once the entity is at rest again. The retained request is acted on and
  the slot is emptied.
\<close>

definition act_on_pending :: "Entity \<Rightarrow> Entity" where
  "act_on_pending e =
     (case m_next_act_state e of
        NAS_SAME \<Rightarrow> e
      | NAS_ACTIVE \<Rightarrow> requestActivation (e\<lparr>m_next_act_state := NAS_SAME\<rparr>)
      | NAS_INACTIVE \<Rightarrow> requestDeactivation (e\<lparr>m_next_act_state := NAS_SAME\<rparr>))"

text \<open>
  Modelled from the spec: \<^verbatim>\<open>Entity::succeedActivation\<close> (Entity.cpp is missing): success
  moves to Active.
\<close>

definition succeedActivation :: "Entity \<Rightarrow> Entity" where
  "succeedActivation e =
     (if isActivating e
      then act_on_pending (reportActivationState (e\<lparr>m_act_state := EAS_ACTIVE\<rparr>))
      else e)"

text \<open>
  Modelled from the spec: \<^verbatim>\<open>Entity::failActivation\<close> (Entity.cpp is missing): failure
  reverts to Inactive and sets the operational state Error with the reason.
\<close>

definition failActivation :: "string \<Rightarrow> Entity \<Rightarrow> Entity" where
  "failActivation reason e =
     (if isActivating e
      then act_on_pending
             (setStateMsg ESTA_ERROR reason
                (reportActivationState (e\<lparr>m_act_state := EAS_INACTIVE\<rparr>)))
      else e)"

text \<open>
  Modelled from the spec: \<^verbatim>\<open>Entity::succeedDeactivation\<close> (Entity.cpp is missing), the
  counterpart of \<^verbatim>\<open>succeedActivation\<close> for the deactivating branch.
\<close>

definition succeedDeactivation :: "Entity \<Rightarrow> Entity" where
  "succeedDeactivation e =
     (if isDeactivating e
      then act_on_pending (reportActivationState (e\<lparr>m_act_state := EAS_INACTIVE\<rparr>))
      else e)"

text \<open>
  Modelled from the spec: \<^verbatim>\<open>Entity::failDeactivation\<close> (Entity.cpp is missing), the
  counterpart of \<^verbatim>\<open>failActivation\<close> for the deactivating branch.
\<close>

definition failDeactivation :: "string \<Rightarrow> Entity \<Rightarrow> Entity" where
  "failDeactivation reason e =
     (if isDeactivating e
      then act_on_pending
             (setStateMsg ESTA_ERROR reason
                (reportActivationState (e\<lparr>m_act_state := EAS_ACTIVE\<rparr>)))
      else e)"

text \<open>The two requests as data, to speak about sequences of them.\<close>

datatype request = ReqActivation | ReqDeactivation

fun apply_request :: "request \<Rightarrow> Entity \<Rightarrow> Entity" where
  "apply_request ReqActivation e = requestActivation e"
| "apply_request ReqDeactivation e = requestDeactivation e"

fun slot_of :: "request \<Rightarrow> NextActivationState" where
  "slot_of ReqActivation = NAS_ACTIVE"
| "slot_of ReqDeactivation = NAS_INACTIVE"

definition requests :: "request list \<Rightarrow> Entity \<Rightarrow> Entity" where
  "requests rs e = fold apply_request rs e"


section \<open>Results of running a member function\<close>

text \<open>
  A member function returns a value and the state it leaves, or throws a C++ exception
  from the state it has reached, or has undefined behaviour (a null pointer dereferenced,
  a buffer overrun, a floating-point value converted outside the range of \<^verbatim>\<open>int\<close>).
\<close>

datatype exn =
    NonexistentLabel string
  | DuplicateLabel string
  | RestartNeeded string real bool
  | OpenFailed string

datatype fault = NullPointer | BufferOverflow | OutOfIntRange

datatype ('a, 's) result = Returns 'a 's | Throws exn 's | Undefined fault

definition bind :: "('a, 's) result \<Rightarrow> ('a \<Rightarrow> 's \<Rightarrow> ('b, 's) result) \<Rightarrow> ('b, 's) result" where
  "bind m f = (case m of Returns a s \<Rightarrow> f a s | Throws e s \<Rightarrow> Throws e s | Undefined u \<Rightarrow> Undefined u)"

definition next_do :: "('a, 's) result \<Rightarrow> ('s \<Rightarrow> ('b, 's) result) \<Rightarrow> ('b, 's) result" where
  "next_do m f = bind m (\<lambda>_. f)"

text \<open>
  Modelled from the spec: a call of \<^verbatim>\<open>Entity::setState(state, code)\<close>, whose body is in
  the missing Entity.cpp, as a member function. The specification says that it never
  fails: for every entity, state and code the call returns, leaving the entity that
  \<open>setState\<close> gives.
\<close>

definition setState_call :: "StateEnum \<Rightarrow> nat \<Rightarrow> Entity \<Rightarrow> (unit, Entity) result" where
  "setState_call state code e = Returns () (setState state code e)"

section \<open>Formatting with sprintf\<close>

text \<open>The conversion \<^verbatim>\<open>%d\<close>: decimal digits, most significant first, a minus sign if negative.\<close>

definition digit_char :: "nat \<Rightarrow> char" where
  "digit_char d = ''0123456789'' ! d"

function dec_nat :: "nat \<Rightarrow> string" where
  "dec_nat n = (if n < 10 then [digit_char n] else dec_nat (n div 10) @ [digit_char (n mod 10)])"
  by pat_completeness auto
termination
  by (relation "measure id") auto

declare dec_nat.simps [simp del]

definition dec_int :: "int \<Rightarrow> string" where
  "dec_int i = (if i < 0 then CHR ''-'' # dec_nat (nat (- i)) else dec_nat (nat i))"

definition NUL :: char where
  "NUL = CHR 0x00"

definition strlen :: "char list \<Rightarrow> nat" where
  "strlen buf = length (takeWhile (\<lambda>c. c \<noteq> NUL) buf)"

definition bytes :: "char list \<Rightarrow> 8 word list" where
  "bytes cs = map of_char cs"


section \<open>What the tasks use of the rest of DUNE\<close>

text \<open>
  Modelled from the spec: \<^verbatim>\<open>Counter<double>\<close> (DUNE/Time/Counter.hpp) is not among the
  sources. The specification describes the watchdog as a deadline timer: with top 10.0
  and no reset for more than 10 time units, \<^verbatim>\<open>overflow()\<close> is true. The counter
  keeps its top and the clock reading of the last reset; the clock reading at each call
  is given by the environment. Times are in seconds.
\<close>

record Counter =
  m_top :: real
  m_last :: real

text \<open>Modelled from the spec: \<^verbatim>\<open>Counter::setTop\<close> (Counter.hpp is missing) sets the top.\<close>

definition setTop :: "real \<Rightarrow> Counter \<Rightarrow> Counter" where
  "setTop t c = c\<lparr>m_top := t\<rparr>"

text \<open>
  Modelled from the spec: \<^verbatim>\<open>Counter::reset\<close> (Counter.hpp is missing) restarts the
  count at the current clock reading.
\<close>

definition reset :: "real \<Rightarrow> Counter \<Rightarrow> Counter" where
  "reset now c = c\<lparr>m_last := now\<rparr>"

text \<open>
  Modelled from the spec: \<^verbatim>\<open>Counter::overflow\<close> (Counter.hpp is missing) is true when
  more than the top has passed since the last reset.
\<close>

definition overflow :: "real \<Rightarrow> Counter \<Rightarrow> bool" where
  "overflow now c = (now - m_last c > m_top c)"

text \<open>
  Modelled from the spec: the entity database behind \<^verbatim>\<open>Task::resolveEntity\<close> and
  \<^verbatim>\<open>Task::reserveEntity\<close> is not among the sources. The specification:
  \<^verbatim>\<open>reserve(label)\<close> allocates a stable id for a label, fails with DuplicateLabel if
  the label is owned by a different task, and is idempotent for the same label. An entry
  is a label with its id and the name of the task that owns it; resolving a label that
  has no entry throws \<^verbatim>\<open>NonexistentLabel\<close>, the exception the task catches.
\<close>

type_synonym entity_db = "(string \<times> nat \<times> string) list"

definition resolve :: "entity_db \<Rightarrow> string \<Rightarrow> nat option" where
  "resolve db label = map_option fst (map_of db label)"

text \<open>
  Modelled from the spec: the id given to a new label in the missing entity database; an
  id is never reused, so the new id is above every id of the database.
\<close>

definition fresh_id :: "entity_db \<Rightarrow> nat" where
  "fresh_id db = Suc (fold max (map (\<lambda>(label, eid, owner). eid) db) 0)"

text \<open>
  Modelled from the spec: \<^verbatim>\<open>reserve(label)\<close> of the missing entity database, for the
  task that calls it.
\<close>

definition reserve :: "string \<Rightarrow> string \<Rightarrow> entity_db \<Rightarrow> exn + (nat \<times> entity_db)" where
  "reserve label task db =
     (case map_of db label of
        Some (eid, owner) \<Rightarrow> if owner = task then Inr (eid, db) else Inl (DuplicateLabel label)
      | None \<Rightarrow> Inr (fresh_id db, db @ [(label, fresh_id db, task)]))"

section \<open>The AMC motor controller task (src/Actuators/AMC/Task.cpp)\<close>

definition c_max_csum :: nat where
  "c_max_csum = 2"

definition c_max_motors :: nat where
  "c_max_motors = 4"

definition c_max_buffer :: nat where
  "c_max_buffer = 16"

definition c_poly :: "8 word" where
  "c_poly = 0x00"

definition c_sleep_time :: nat where
  "c_sleep_time = 250000"

datatype AmcMessages = RPM | TEMPERATURE | PWR | STATE

text \<open>Arrays of \<^verbatim>\<open>c_max_motors\<close> elements are functions of the index.\<close>

record Arguments =
  uart_dev :: string
  uart_baud :: nat
  motor_elabels :: "nat \<Rightarrow> string"
  internal_factors :: "nat \<Rightarrow> real"
  motor_state :: "nat \<Rightarrow> bool"

record Rpm =
  source_entity :: nat
  rpm_value :: "32 word"

text \<open>
  \<^verbatim>\<open>IMC::SetThrusterActuation\<close>: the task reads the fields \<^verbatim>\<open>id\<close> and \<^verbatim>\<open>value\<close>. The
  value is a floating-point number that the call \<^verbatim>\<open>setRPM(0, msg->value)\<close> converts to
  \<^verbatim>\<open>int\<close>; its finite values are real numbers.
\<close>

record SetThrusterActuation =
  msg_id :: "8 word"
  msg_value :: real

record SerialPort =
  port_dev :: string
  port_baud :: nat

type_synonym handle = nat

text \<open>
  The state of the task, with the part of the world it acts on: the task's own entity
  (held by the base class), the entity database of the context, the serial port objects
  alive on the heap, every call of \<^verbatim>\<open>SerialPort::write\<close> so far with the handle it went
  to, and the messages dispatched to the bus. The parser \<^verbatim>\<open>MessageParse\<close> is not among
  the sources: its state is the type parameter.
\<close>

record 'p Task =
  m_name :: string
  m_entity :: Entity
  m_rpm_val :: "nat \<Rightarrow> Rpm"
  m_args :: Arguments
  m_func_name :: AmcMessages
  m_uart :: "handle option"
  m_poll :: "handle list"
  m_buffer :: "8 word list"
  m_csum :: "8 word \<times> 8 word"
  m_msg :: "char list"
  m_parse :: "'p option"
  m_wdog :: Counter
  m_cnt_motor :: "8 word"
  w_entities :: entity_db
  w_ports :: "handle \<rightharpoonup> SerialPort"
  w_tx :: "(handle \<times> 8 word list) list"
  w_bus :: "Rpm list"

text \<open>
  What the task takes from classes that are not among the sources, as parameters:
  \<^verbatim>\<open>Algorithms::CRC8\<close> (the value \<^verbatim>\<open>putArray\<close> returns on an object built with the
  given polynomial), \<^verbatim>\<open>MessageParse\<close> (a new parser in state \<^verbatim>\<open>PS_PREAMBLE\<close>, the
  step \<^verbatim>\<open>ParserAMC\<close>, and the fields \<^verbatim>\<open>m_motor.rpm[i]\<close> converted to \<^verbatim>\<open>int\<close> and
  \<^verbatim>\<open>m_motor.state[i]\<close>), and the two status codes of \<^verbatim>\<open>Status::Code\<close> it names.
\<close>

record 'p deps =
  crc_putArray :: "8 word \<Rightarrow> 8 word list \<Rightarrow> 8 word"
  new_MessageParse :: 'p
  ParserAMC :: "8 word \<Rightarrow> 'p \<Rightarrow> 'p"
  motor_rpm :: "'p \<Rightarrow> nat \<Rightarrow> 32 word"
  motor_status :: "'p \<Rightarrow> nat \<Rightarrow> int"
  CODE_IDLE :: nat
  CODE_ACTIVE :: nat

text \<open>
  What the environment does during one exchange with the device: whether
  \<^verbatim>\<open>m_poll.poll(0.5)\<close> reports readiness, whether \<^verbatim>\<open>wasTriggered\<close> holds for the port,
  and what \<^verbatim>\<open>m_uart->read(m_buffer, 1)\<close> does: it throws, or it returns a count and, when
  the count is positive, has stored a byte.
\<close>

datatype rx = RxException | RxReturn int "8 word"

record io =
  poll_ready :: bool
  triggered :: bool
  received :: rx

text \<open>
  One iteration of the main loop sees, besides the exchange, the clock readings at the
  call of \<^verbatim>\<open>m_wdog.reset()\<close> and at the call of \<^verbatim>\<open>m_wdog.overflow()\<close>, and the messages
  that are pending when \<^verbatim>\<open>waitForMessages(0.75)\<close> is called.
\<close>

record tick = io +
  clock_reset :: real
  clock_check :: real
  inbox :: "SetThrusterActuation list"

text \<open>
  Modelled from the spec: \<^verbatim>\<open>Task::setEntityState\<close> of the base class is not among the
  sources; it sets the state of the task's own entity.
\<close>

definition setEntityState :: "StateEnum \<Rightarrow> nat \<Rightarrow> 'p Task \<Rightarrow> 'p Task" where
  "setEntityState state code t = t\<lparr>m_entity := setState state code (m_entity t)\<rparr>"

text \<open>
  Modelled from the spec: \<^verbatim>\<open>Task::setEntityState\<close> with a free text, of the missing base
  class.
\<close>

definition setEntityStateMsg :: "StateEnum \<Rightarrow> string \<Rightarrow> 'p Task \<Rightarrow> 'p Task" where
  "setEntityStateMsg state message t = t\<lparr>m_entity := setStateMsg state message (m_entity t)\<rparr>"

text \<open>
  Modelled from the spec: \<^verbatim>\<open>Task::resolveEntity\<close> of the missing base class looks the
  label up in the entity database of the context and throws \<^verbatim>\<open>NonexistentLabel\<close> when
  there is no entry.
\<close>

definition resolveEntity :: "string \<Rightarrow> 'p Task \<Rightarrow> (nat, 'p Task) result" where
  "resolveEntity label t =
     (case resolve (w_entities t) label of
        None \<Rightarrow> Throws (NonexistentLabel label) t
      | Some eid \<Rightarrow> Returns eid t)"

text \<open>
  Modelled from the spec: \<^verbatim>\<open>Task::reserveEntity\<close> of the missing base class reserves the
  label in the entity database of the context under the name of the task.
\<close>

definition reserveEntity :: "string \<Rightarrow> 'p Task \<Rightarrow> (nat, 'p Task) result" where
  "reserveEntity label t =
     (case reserve label (m_name t) (w_entities t) of
        Inl e \<Rightarrow> Throws e t
      | Inr (eid, db) \<Rightarrow> Returns eid (t\<lparr>w_entities := db\<rparr>))"

text \<open>
  Modelled from the spec: the class \<^verbatim>\<open>SerialPort\<close> is not among the sources; the
  specification leaves serial I/O to the operating system. \<^verbatim>\<open>SerialPort::write\<close>
  through \<^verbatim>\<open>m_uart\<close>: the port takes the bytes and returns their number. Through a null
  \<^verbatim>\<open>m_uart\<close> the call is undefined.
\<close>

definition uart_write :: "8 word list \<Rightarrow> 'p Task \<Rightarrow> (int, 'p Task) result" where
  "uart_write bs t =
     (case m_uart t of
        None \<Rightarrow> Undefined NullPointer
      | Some h \<Rightarrow> Returns (int (length bs)) (t\<lparr>w_tx := w_tx t @ [(h, bs)]\<rparr>))"

text \<open>
  \<^verbatim>\<open>memset(&m_msg, '\0', sizeof(m_msg)); sprintf(m_msg, ...)\<close>: the text and its
  terminating NUL must fit the \<^verbatim>\<open>c_max_buffer\<close> characters of \<^verbatim>\<open>m_msg\<close>.
\<close>

definition sprintf_m_msg :: "string \<Rightarrow> 'p Task \<Rightarrow> (unit, 'p Task) result" where
  "sprintf_m_msg text t =
     (if length text < c_max_buffer
      then Returns () (t\<lparr>m_msg := text @ replicate (c_max_buffer - length text) NUL\<rparr>)
      else Undefined BufferOverflow)"

text \<open>
  The statements that \<^verbatim>\<open>setRPM\<close> and each branch of \<^verbatim>\<open>readParameterAMC\<close> share after
  the text is formatted: the checksum of the first \<^verbatim>\<open>strlen(m_msg) - 1\<close> characters
  goes to \<^verbatim>\<open>m_csum[0]\<close>, then the text is written, then one byte of \<^verbatim>\<open>m_csum\<close>. The
  value is that of \<^verbatim>\<open>t\<close> at the end. (The formats are never empty, so the unsigned
  subtraction does not wrap.)
\<close>

definition send_m_msg :: "'p deps \<Rightarrow> 'p Task \<Rightarrow> (int, 'p Task) result" where
  "send_m_msg D t =
     (let t1 = t\<lparr>m_csum :=
                 (crc_putArray D c_poly (bytes (take (strlen (m_msg t) - 1) (m_msg t))),
                  snd (m_csum t))\<rparr>
      in bind (uart_write (bytes (take (strlen (m_msg t1)) (m_msg t1))) t1)
           (\<lambda>n t2. bind (uart_write [fst (m_csum t2)] t2)
              (\<lambda>_ t3. Returns (n + 1) t3)))"

definition setRPM :: "'p deps \<Rightarrow> 32 word \<Rightarrow> 32 word \<Rightarrow> 'p Task \<Rightarrow> (int, 'p Task) result" where
  "setRPM D motor rpm t =
     next_do
       (sprintf_m_msg (''@S,'' @ dec_int (sint motor) @ '','' @ dec_int (sint rpm) @ '',*'') t)
       (send_m_msg D)"

definition readParameterAMC ::
  "'p deps \<Rightarrow> 32 word \<Rightarrow> AmcMessages \<Rightarrow> 'p Task \<Rightarrow> (unit, 'p Task) result" where
  "readParameterAMC D motor func_name t =
     (case func_name of
        RPM \<Rightarrow>
          bind (next_do (sprintf_m_msg (''@R,'' @ dec_int (sint motor) @ '',rpm,*'') t) (send_m_msg D))
            (\<lambda>_. Returns ())
      | TEMPERATURE \<Rightarrow>
          bind (next_do (sprintf_m_msg (''@R,'' @ dec_int (sint motor) @ '',tmp,*'') t) (send_m_msg D))
            (\<lambda>_. Returns ())
      | PWR \<Rightarrow>
          bind (next_do (sprintf_m_msg (''@R,'' @ dec_int (sint motor) @ '',pwr,*'') t) (send_m_msg D))
            (\<lambda>_. Returns ())
      | STATE \<Rightarrow>
          bind (next_do (sprintf_m_msg (''@R,'' @ dec_int (sint motor) @ '',sta,*'') t) (send_m_msg D))
            (\<lambda>_. Returns ()))"


text \<open>
  The conversion of a floating-point value to \<^verbatim>\<open>int\<close> at a call: the fraction is
  discarded; outside the range of \<^verbatim>\<open>int\<close> the conversion is undefined.
\<close>

definition int_of_float :: "real \<Rightarrow> 32 word option" where
  "int_of_float r =
     (let z = (if r < 0 then \<lceil>r\<rceil> else \<lfloor>r\<rfloor>)
      in if - (2 ^ 31) \<le> z \<and> z < 2 ^ 31 then Some (word_of_int z) else None)"

definition setRPM_float :: "'p deps \<Rightarrow> 32 word \<Rightarrow> real \<Rightarrow> 'p Task \<Rightarrow> (int, 'p Task) result" where
  "setRPM_float D motor v t =
     (case int_of_float v of
        None \<Rightarrow> Undefined OutOfIntRange
      | Some rpm \<Rightarrow> setRPM D motor rpm t)"

text \<open>
  The calls of \<^verbatim>\<open>usleep(c_sleep_time)\<close> only let time pass; time enters the task through
  the clock readings of the environment.
\<close>

definition consume :: "'p deps \<Rightarrow> SetThrusterActuation \<Rightarrow> 'p Task \<Rightarrow> (unit, 'p Task) result" where
  "consume D msg t =
     (if msg_id msg = 0 then
        next_do (setRPM_float D 0 (msg_value msg) t)
          (\<lambda>t1. bind (setRPM_float D 1 (msg_value msg) t1) (\<lambda>_. Returns ()))
      else if msg_id msg = 1 then
        next_do (setRPM_float D 2 (msg_value msg) t)
          (\<lambda>t1. bind (setRPM_float D 3 (msg_value msg) t1) (\<lambda>_. Returns ()))
      else Returns () t)"

text \<open>The calls of \<^verbatim>\<open>err\<close> and \<^verbatim>\<open>war\<close> write to the log only.\<close>

definition checkSerialPort :: "'p deps \<Rightarrow> 'a io_scheme \<Rightarrow> 'p Task \<Rightarrow> (unit, 'p Task) result" where
  "checkSerialPort D x t =
     (case m_uart t of
        None \<Rightarrow> Undefined NullPointer
      | Some h \<Rightarrow>
          if triggered x then
            (let t1 = t\<lparr>m_buffer := replicate c_max_buffer 0\<rparr>
             in case received x of
                  RxException \<Rightarrow> Returns () t1
                | RxReturn rv b \<Rightarrow>
                    if rv \<le> 0 then Returns () t1
                    else (case m_parse t1 of
                            None \<Rightarrow> Undefined NullPointer
                          | Some p \<Rightarrow>
                              Returns () (t1\<lparr>m_buffer := (m_buffer t1)[0 := b],
                                             m_parse := Some (ParserAMC D b p)\<rparr>)))
          else Returns () t)"

fun checkStateMotor_loop ::
  "'p deps \<Rightarrow> (nat \<Rightarrow> io) \<Rightarrow> nat list \<Rightarrow> 'p Task \<Rightarrow> (unit, 'p Task) result" where
  "checkStateMotor_loop D xs [] t = Returns () t"
| "checkStateMotor_loop D xs (i # js) t =
     next_do (readParameterAMC D (of_nat i) STATE t)
       (\<lambda>t1. next_do (if poll_ready (xs i) then checkSerialPort D (xs i) t1 else Returns () t1)
          (checkStateMotor_loop D xs js))"

definition checkStateMotor :: "'p deps \<Rightarrow> (nat \<Rightarrow> io) \<Rightarrow> 'p Task \<Rightarrow> (unit, 'p Task) result" where
  "checkStateMotor D xs t =
     next_do (checkStateMotor_loop D xs [0 ..< 4] t)
       (\<lambda>t1. case m_parse t1 of
                None \<Rightarrow> Undefined NullPointer
              | Some p \<Rightarrow>
                  (let cnt_war = length (filter (\<lambda>i. motor_status D p i = 0) [0 ..< 4])
                   in if cnt_war > 0
                      then Returns () (setEntityStateMsg ESTA_ERROR ''AMC Motor'' t1)
                      else Returns () t1))"

definition stopAllMotor :: "'p deps \<Rightarrow> 'p Task \<Rightarrow> (unit, 'p Task) result" where
  "stopAllMotor D t =
     next_do (setRPM D 0 0 t)
       (\<lambda>t1. next_do (setRPM D 1 0 t1)
          (\<lambda>t2. next_do (setRPM D 2 0 t2)
             (\<lambda>t3. bind (setRPM D 3 0 t3) (\<lambda>_. Returns ()))))"

text \<open>
  \<^verbatim>\<open>dispatchRpm\<close> writes through \<^verbatim>\<open>m_rpm_val->\<close>, the first element of the array, and
  dispatches it.
\<close>

definition dispatchRpm :: "32 word \<Rightarrow> 32 word \<Rightarrow> 'p Task \<Rightarrow> (unit, 'p Task) result" where
  "dispatchRpm i rpm t =
     (if 0 \<le> sint i \<and> sint i < int c_max_motors then
        bind (resolveEntity (motor_elabels (m_args t) (nat (sint i))) t)
          (\<lambda>eid t1.
             (let r = (m_rpm_val t1 0)\<lparr>source_entity := eid, rpm_value := rpm\<rparr>
              in Returns () (t1\<lparr>m_rpm_val := (m_rpm_val t1)(0 := r), w_bus := w_bus t1 @ [r]\<rparr>)))
      else Returns () t)"

text \<open>
  Modelled from the spec: \<^verbatim>\<open>Task::waitForMessages\<close> of the base class is not among the
  sources. The specification: it blocks until a message arrives or the timeout elapses,
  then dispatches all pending messages in arrival order to their handlers. The task binds
  \<^verbatim>\<open>IMC::SetThrusterActuation\<close> only.
\<close>

fun waitForMessages ::
  "'p deps \<Rightarrow> SetThrusterActuation list \<Rightarrow> 'p Task \<Rightarrow> (unit, 'p Task) result" where
  "waitForMessages D [] t = Returns () t"
| "waitForMessages D (msg # msgs) t = next_do (consume D msg t) (waitForMessages D msgs)"

text \<open>
  One pass through the body of the loop of \<^verbatim>\<open>onMain\<close>. The counter \<^verbatim>\<open>m_cnt_motor\<close> is
  a \<^verbatim>\<open>uint8_t\<close>, passed where an \<^verbatim>\<open>int\<close> is expected.
\<close>

definition poll_branch :: "'p deps \<Rightarrow> tick \<Rightarrow> 'p Task \<Rightarrow> (unit, 'p Task) result" where
  "poll_branch D k t =
     next_do (checkSerialPort D k t)
       (\<lambda>t1. Returns () (t1\<lparr>m_wdog := reset (clock_reset k) (m_wdog t1)\<rparr>))"

definition request_branch :: "'p deps \<Rightarrow> tick \<Rightarrow> 'p Task \<Rightarrow> (unit, 'p Task) result" where
  "request_branch D k t =
     next_do (readParameterAMC D (ucast (m_cnt_motor t)) RPM t)
       (\<lambda>t1. case m_parse t1 of
                None \<Rightarrow> Undefined NullPointer
              | Some p \<Rightarrow>
                  next_do (dispatchRpm (ucast (m_cnt_motor t1))
                             (motor_rpm D p (unat (m_cnt_motor t1))) t1)
                    (\<lambda>t2. (let t3 = t2\<lparr>m_cnt_motor := m_cnt_motor t2 + 1\<rparr>;
                                t4 = (if m_cnt_motor t3 \<ge> 4 then t3\<lparr>m_cnt_motor := 0\<rparr> else t3)
                            in next_do (waitForMessages D (inbox k) t4)
                                 (\<lambda>t5. Returns ()
                                    (t5\<lparr>m_wdog := reset (clock_reset k) (m_wdog t5)\<rparr>)))))"

definition iteration :: "'p deps \<Rightarrow> tick \<Rightarrow> 'p Task \<Rightarrow> (unit, 'p Task) result" where
  "iteration D k t =
     next_do (if poll_ready k then poll_branch D k t else request_branch D k t)
       (\<lambda>t1. if overflow (clock_check k) (m_wdog t1)
              then Throws (RestartNeeded ''Watchdog Overflow'' 2.0 False)
                     (setEntityStateMsg ESTA_ERROR ''Watchdog Overflow'' t1)
              else Returns () t1)"

text \<open>
  The loop \<^verbatim>\<open>while (!stopping())\<close>: a run that is stopped has made finitely many
  iterations, one for each element of the list; \<^verbatim>\<open>stopping()\<close> is true when the list is
  used up.
\<close>

fun main_loop :: "'p deps \<Rightarrow> tick list \<Rightarrow> 'p Task \<Rightarrow> (unit, 'p Task) result" where
  "main_loop D [] t = Returns () t"
| "main_loop D (k # ks) t = next_do (iteration D k t) (main_loop D ks)"

definition onMain :: "'p deps \<Rightarrow> tick list \<Rightarrow> 'p Task \<Rightarrow> (unit, 'p Task) result" where
  "onMain D ks t =
     (let t1 = setEntityState ESTA_NORMAL (CODE_ACTIVE D) t;
          t2 = t1\<lparr>m_cnt_motor := 0\<rparr>
      in next_do (main_loop D ks t2) (stopAllMotor D))"

text \<open>The loop of \<^verbatim>\<open>onEntityReservation\<close> over the motors.\<close>

fun onEntityReservation_loop :: "nat list \<Rightarrow> 'p Task \<Rightarrow> (unit, 'p Task) result" where
  "onEntityReservation_loop [] t = Returns () t"
| "onEntityReservation_loop (i # js) t =
     next_do
       (case resolveEntity (motor_elabels (m_args t) i) t of
          Returns _ t1 \<Rightarrow> Returns () t1
        | Throws (NonexistentLabel _) t1 \<Rightarrow>
            bind (reserveEntity (motor_elabels (m_args t1) i) t1) (\<lambda>_. Returns ())
        | Throws e t1 \<Rightarrow> Throws e t1
        | Undefined u \<Rightarrow> Undefined u)
       (onEntityReservation_loop js)"

definition onEntityReservation :: "'p Task \<Rightarrow> (unit, 'p Task) result" where
  "onEntityReservation t = onEntityReservation_loop [0 ..< c_max_motors] t"

text \<open>
  \<^verbatim>\<open>new SerialPort(...)\<close>: the environment gives the address of the new object, which
  is not the address of an object alive, or the constructor throws.
\<close>

definition AMC_onResourceAcquisition ::
  "'p deps \<Rightarrow> handle option \<Rightarrow> 'p Task \<Rightarrow> (unit, 'p Task) result" where
  "AMC_onResourceAcquisition D new_port t =
     (let t1 = setEntityState ESTA_NORMAL (CODE_IDLE D) t
      in case new_port of
           None \<Rightarrow> Throws (OpenFailed (uart_dev (m_args t1))) t1
         | Some h \<Rightarrow>
             Returns ()
               (t1\<lparr>m_uart := Some h,
                   w_ports := (w_ports t1)
                     (h \<mapsto> \<lparr>port_dev = uart_dev (m_args t1), port_baud = uart_baud (m_args t1)\<rparr>)\<rparr>))"

definition AMC_onResourceInitialization ::
  "'p deps \<Rightarrow> (nat \<Rightarrow> io) \<Rightarrow> 'p Task \<Rightarrow> (unit, 'p Task) result" where
  "AMC_onResourceInitialization D xs t =
     (let t1 = t\<lparr>m_parse := Some (new_MessageParse D)\<rparr>
      in case m_uart t1 of
           None \<Rightarrow> Undefined NullPointer
         | Some h \<Rightarrow>
             next_do (checkStateMotor D xs (t1\<lparr>m_poll := m_poll t1 @ [h]\<rparr>))
               (\<lambda>t2. next_do (stopAllMotor D t2)
                  (\<lambda>t3. Returns () (t3\<lparr>m_wdog := setTop 10.0 (m_wdog t3)\<rparr>))))"

definition AMC_onResourceRelease :: "'p Task \<Rightarrow> 'p Task" where
  "AMC_onResourceRelease t =
     (case m_uart t of
        None \<Rightarrow> t
      | Some h \<Rightarrow>
          t\<lparr>m_poll := removeAll h (m_poll t),
            w_ports := (w_ports t)(h := None),
            m_uart := None\<rparr>)"

section \<open>The camera task (src/Vision/UI2210MGL/Task.cpp)\<close>

record AOI =
  aoi_x :: nat
  aoi_y :: nat
  aoi_width :: nat
  aoi_height :: nat

record UI2210MGL_Arguments =
  fps :: nat
  quality :: nat
  log_dir :: string
  aoi :: AOI
  auto_gain :: bool
  c1 :: real
  c2 :: real
  c3 :: real
  wlen :: real

text \<open>
  The class \<^verbatim>\<open>CaptureUeye\<close> is not among the sources. A capture object is what the task
  can tell of it: the arguments of its constructor and the member functions called on it
  since, in order.
\<close>

datatype capture_call = Start | SetAOI AOI | SetFPS nat | SetAutoGain bool

record CaptureUeye =
  ctor_aoi :: AOI
  ctor_cam :: nat
  ctor_fps :: nat
  calls :: "capture_call list"

record UI2210MGL_Task =
  cam_args :: UI2210MGL_Arguments
  m_log_dir :: string
  m_cam :: nat
  m_starting :: bool
  m_capture :: "handle option"
  w_captures :: "handle \<rightharpoonup> CaptureUeye"

text \<open>
  Modelled from the spec: a member function of the missing class \<^verbatim>\<open>CaptureUeye\<close> called
  through \<^verbatim>\<open>m_capture\<close> is recorded on the object; through a null pointer the call is
  undefined.
\<close>

definition capture_do :: "capture_call \<Rightarrow> UI2210MGL_Task \<Rightarrow> (unit, UI2210MGL_Task) result" where
  "capture_do c t =
     (case m_capture t of
        None \<Rightarrow> Undefined NullPointer
      | Some h \<Rightarrow>
          (case w_captures t h of
             None \<Rightarrow> Undefined NullPointer
           | Some obj \<Rightarrow>
               Returns () (t\<lparr>w_captures := (w_captures t)(h \<mapsto> obj\<lparr>calls := calls obj @ [c]\<rparr>)\<rparr>)))"

definition UI2210MGL_onUpdateParameters :: "UI2210MGL_Task \<Rightarrow> (unit, UI2210MGL_Task) result" where
  "UI2210MGL_onUpdateParameters t =
     (if m_starting t then Returns () (t\<lparr>m_starting := False\<rparr>)
      else
        (let t1 = t\<lparr>m_log_dir := log_dir (cam_args t)\<rparr>
         in next_do (capture_do (SetAOI (aoi (cam_args t1))) t1)
              (\<lambda>t2. next_do (capture_do (SetFPS (fps (cam_args t2))) t2)
                 (\<lambda>t3. capture_do (SetAutoGain (auto_gain (cam_args t3))) t3))))"

definition UI2210MGL_onResourceAcquisition ::
  "handle \<Rightarrow> UI2210MGL_Task \<Rightarrow> (unit, UI2210MGL_Task) result" where
  "UI2210MGL_onResourceAcquisition h t =
     (let t1 = t\<lparr>m_capture := Some h,
                 w_captures := (w_captures t)
                   (h \<mapsto> \<lparr>ctor_aoi = aoi (cam_args t), ctor_cam = m_cam t,
                          ctor_fps = fps (cam_args t), calls = []\<rparr>)\<rparr>
      in next_do (capture_do Start t1)
           (\<lambda>t2. capture_do (SetAutoGain (auto_gain (cam_args t2))) t2))"

definition UI2210MGL_onResourceRelease :: "UI2210MGL_Task \<Rightarrow> UI2210MGL_Task" where
  "UI2210MGL_onResourceRelease t =
     (case m_capture t of
        None \<Rightarrow> t
      | Some h \<Rightarrow> t\<lparr>w_captures := (w_captures t)(h := None), m_capture := None\<rparr>)"


section \<open>The frames of the serial protocol, as the specification words them\<close>

text \<open>
  A write is \<^verbatim>\<open>"@S,<id>,<value>,*"\<close> and a read request is \<^verbatim>\<open>"@R,<id>,<field>,*"\<close>
  with the field one of rpm, tmp, pwr and sta; each is followed by one checksum byte
  computed over all bytes before the trailing \<^verbatim>\<open>*\<close>.
\<close>

definition set_text :: "32 word \<Rightarrow> 32 word \<Rightarrow> string" where
  "set_text motor rpm = ''@S,'' @ dec_int (sint motor) @ '','' @ dec_int (sint rpm) @ '',*''"

definition field_name :: "AmcMessages \<Rightarrow> string" where
  "field_name f = (case f of RPM \<Rightarrow> ''rpm'' | TEMPERATURE \<Rightarrow> ''tmp'' | PWR \<Rightarrow> ''pwr'' | STATE \<Rightarrow> ''sta'')"

definition read_text :: "32 word \<Rightarrow> AmcMessages \<Rightarrow> string" where
  "read_text motor f = ''@R,'' @ dec_int (sint motor) @ '','' @ field_name f @ '',*''"

definition spec_frame :: "'p deps \<Rightarrow> string \<Rightarrow> 8 word list list" where
  "spec_frame D cs = [bytes cs, [crc_putArray D c_poly (bytes (butlast cs))]]"

definition fits :: "string \<Rightarrow> bool" where
  "fits cs = (length cs < c_max_buffer)"

text \<open>The state after a frame has gone out through the port \<open>h\<close>.\<close>

definition after_send :: "'p deps \<Rightarrow> string \<Rightarrow> handle \<Rightarrow> 'p Task \<Rightarrow> 'p Task" where
  "after_send D cs h t =
     t\<lparr>m_msg := cs @ replicate (c_max_buffer - length cs) NUL,
       m_csum := (crc_putArray D c_poly (bytes (butlast cs)), snd (m_csum t)),
       w_tx := w_tx t @ map (Pair h) (spec_frame D cs)\<rparr>"

text \<open>A write to the port that begins a read request.\<close>

definition is_read_request :: "8 word list \<Rightarrow> bool" where
  "is_read_request bs = (take 3 bs = bytes ''@R,'')"


text \<open>
  What no step of the main loop that returns changes: the port, the arguments, the
  entity database, the task's entity, the top of the watchdog, the port objects, the
  multiplexer, and whether there is a parser.
\<close>

definition steady :: "'p Task \<Rightarrow> 'p Task \<Rightarrow> bool" where
  "steady t t' =
     (m_uart t' = m_uart t \<and> m_args t' = m_args t \<and> w_entities t' = w_entities t
      \<and> m_entity t' = m_entity t \<and> m_top (m_wdog t') = m_top (m_wdog t)
      \<and> w_ports t' = w_ports t \<and> m_poll t' = m_poll t
      \<and> (m_parse t' = None \<longleftrightarrow> m_parse t = None))"

text \<open>The writes of \<^verbatim>\<open>stopAllMotor\<close>: a zero-rpm command for each of the motors 0 to 3.\<close>

definition stop_frames :: "'p deps \<Rightarrow> 8 word list list" where
  "stop_frames D =
     concat (map (spec_frame D) [''@S,0,0,*'', ''@S,1,0,*'', ''@S,2,0,*'', ''@S,3,0,*''])"


text \<open>
  A step that leaves the loop's setting as it is, keeps the motor counter and the
  watchdog, and writes no read request to the port.
\<close>

definition quiet :: "'p Task \<Rightarrow> 'p Task \<Rightarrow> bool" where
  "quiet t t' =
     (steady t t' \<and> m_cnt_motor t' = m_cnt_motor t \<and> m_wdog t' = m_wdog t
      \<and> (\<exists>rest. w_tx t' = w_tx t @ rest \<and> (\<forall>e \<in> set rest. \<not> is_read_request (snd e))))"

text \<open>The labels of all motors resolve.\<close>

definition labels_resolve :: "'p Task \<Rightarrow> bool" where
  "labels_resolve t =
     (\<forall>i < c_max_motors. resolve (w_entities t) (motor_elabels (m_args t) i) \<noteq> None)"

text \<open>
  The effect of one pass of the loop of \<^verbatim>\<open>onEntityReservation\<close> for a label: a label
  that does not resolve gets a new entry, owned by the task.
\<close>

definition reserved_with :: "string \<Rightarrow> 'p Task \<Rightarrow> 'p Task" where
  "reserved_with label t =
     (if resolve (w_entities t) label = None
      then t\<lparr>w_entities := w_entities t @ [(label, fresh_id (w_entities t), m_name t)]\<rparr>
      else t)"

section \<open>Concrete states and inputs\<close>

text \<open>
  Stand-ins for the classes that are not among the sources: a checksum that adds the
  bytes to the polynomial, and a parser without state that reports every motor as
  running at 0 rpm.
\<close>

definition D0 :: "unit deps" where
  "D0 = \<lparr>crc_putArray = (\<lambda>poly bs. fold (+) bs poly),
          new_MessageParse = (),
          ParserAMC = (\<lambda>b p. p),
          motor_rpm = (\<lambda>p i. 0),
          motor_status = (\<lambda>p i. 1),
          CODE_IDLE = 1,
          CODE_ACTIVE = 2\<rparr>"

text \<open>An entity as its constructor leaves it, with an id and a label set.\<close>

definition entity0 :: Entity where
  "entity0 = \<lparr>m_id = 12, m_label = ''AMC'', m_entity_state = ESTA_BOOT,
               m_entity_description = [], m_entity_state_code = - 1,
               m_act_state = EAS_INACTIVE, m_next_act_state = NAS_SAME, published = []\<rparr>"

text \<open>An entity that is activating.\<close>

definition entity_activating :: Entity where
  "entity_activating = entity0\<lparr>m_act_state := EAS_ACT_IP\<rparr>"

text \<open>An entity that is deactivating.\<close>

definition entity_deactivating :: Entity where
  "entity_deactivating = entity0\<lparr>m_act_state := EAS_DEACT_IP\<rparr>"

text \<open>The AMC task after its constructor, in an empty context.\<close>

definition amc0 :: "unit Task" where
  "amc0 = \<lparr>m_name = ''Actuators.AMC'',
            m_entity = entity0,
            m_rpm_val = (\<lambda>i. \<lparr>source_entity = 0, rpm_value = 0\<rparr>),
            m_args = \<lparr>uart_dev = ''/dev/ttyUSB0'', uart_baud = 57600,
                       motor_elabels = (\<lambda>i. ''Motor''), internal_factors = (\<lambda>i. 1),
                       motor_state = (\<lambda>i. True)\<rparr>,
            m_func_name = RPM,
            m_uart = None,
            m_poll = [],
            m_buffer = replicate 16 0,
            m_csum = (0, 0),
            m_msg = replicate 16 NUL,
            m_parse = None,
            m_wdog = \<lparr>m_top = 0, m_last = 0\<rparr>,
            m_cnt_motor = 0,
            w_entities = [],
            w_ports = Map.empty,
            w_tx = [],
            w_bus = []\<rparr>"

text \<open>The AMC task as it enters \<^verbatim>\<open>onMain\<close>: port 1 open and polled, watchdog top 10.\<close>

definition amc_main :: "unit Task" where
  "amc_main = amc0\<lparr>m_uart := Some 1, m_poll := [1], m_parse := Some (),
                    m_wdog := \<lparr>m_top = 10, m_last = 0\<rparr>,
                    w_entities := [(''Motor'', 1, ''Actuators.AMC'')],
                    w_ports := [1 \<mapsto> \<lparr>port_dev = ''/dev/ttyUSB0'', port_baud = 57600\<rparr>]\<rparr>"

text \<open>
  An iteration in which nothing arrives from the device and no message is pending; the
  \<open>i\<close>-th such iteration ends 1.5 seconds after the one before.
\<close>

definition silent_tick :: "nat \<Rightarrow> tick" where
  "silent_tick i = \<lparr>poll_ready = False, triggered = False, received = RxException,
                     clock_reset = 1.5 * real (Suc i), clock_check = 1.5 * real (Suc i),
                     inbox = []\<rparr>"

text \<open>An iteration in which the multiplexer reports readiness and a byte is read.\<close>

definition byte_tick :: tick where
  "byte_tick = \<lparr>poll_ready = True, triggered = True, received = RxReturn 1 64,
                 clock_reset = 0.5, clock_check = 0.5, inbox = []\<rparr>"

text \<open>
  An iteration in which the multiplexer reports readiness though the port was not
  triggered, and 11 seconds pass between the reset of the watchdog and its test.
\<close>

definition stalled_tick :: tick where
  "stalled_tick = \<lparr>poll_ready = True, triggered = False, received = RxException,
                    clock_reset = 1, clock_check = 12, inbox = []\<rparr>"

text \<open>The camera task after its constructor, with a log directory configured.\<close>

definition cam0 :: UI2210MGL_Task where
  "cam0 = \<lparr>cam_args = \<lparr>fps = 30, quality = 80, log_dir = ''/log'',
                          aoi = \<lparr>aoi_x = 0, aoi_y = 0, aoi_width = 640, aoi_height = 250\<rparr>,
                          auto_gain = True, c1 = 372, c2 = 0.505, c3 = - 0.00002235,
                          wlen = 500\<rparr>,
            m_log_dir = ''/ctx'',
            m_cam = 1,
            m_starting = True,
            m_capture = None,
            w_captures = Map.empty\<rparr>"

text \<open>The camera task with its resources acquired, after the first parameter update.\<close>

definition cam_running :: UI2210MGL_Task where
  "cam_running = cam0\<lparr>m_starting := False, m_capture := Some 5,
       w_captures := [5 \<mapsto> \<lparr>ctor_aoi = aoi (cam_args cam0), ctor_cam = 1, ctor_fps = 30,
                               calls = [Start, SetAutoGain True]\<rparr>]\<rparr>"

section \<open>Entity state reports\<close>

lemma setState_idem: "setState state code (setState state code e) = setState state code e"
  by (simp add: setState_def)

lemma setState_state: "m_entity_state (setState state code e) = state"
  by (simp add: setState_def)

lemma setStateMsg_state: "m_entity_state (setStateMsg state message e) = state"
  by (simp add: setStateMsg_def)

lemma setState_funpow: "(setState state code ^^ Suc n) e = setState state code e"
proof (induction n)
  case 0
  show ?case by simp
next
  case (Suc n)
  have "(setState state code ^^ Suc (Suc n)) e = setState state code ((setState state code ^^ Suc n) e)"
    by simp
  also have "\<dots> = setState state code (setState state code e)" by (simp only: Suc)
  finally show ?case by (simp add: setState_idem)
qed

text \<open>
  C5: a call of \<^verbatim>\<open>setState\<close> returns for every entity, state and code. Two calls in a
  row with the same state and code leave what the first call alone leaves: the second
  updates nothing and publishes nothing, and so does every further repetition. The two
  calls publish exactly one report, that of the first call: on an entity as constructed,
  on any entity without a cached code, after a call of \<^verbatim>\<open>setState\<close> with another state
  or code, after a call with a free text, and whenever the entity does not hold the
  state and code already.
\<close>

theorem setState_twice:
  "(\<exists>e'. setState_call state code e = Returns () e')
   \<and> next_do (setState_call state code e) (setState_call state code) = setState_call state code e
   \<and> (setState state code ^^ Suc n) e = setState state code e
   \<and> published (setState state code (setState state code (Entity_new unk_eid state0))) =
        [EntityStateReport unk_eid state (Code code)]
   \<and> (m_entity_state_code e = - 1 \<longrightarrow>
        published (setState state code (setState state code e)) =
          published e @ [EntityStateReport (m_id e) state (Code code)])
   \<and> ((state', code') \<noteq> (state, code) \<longrightarrow>
        published (setState state code (setState state code (setState state' code' e))) =
          published (setState state' code' e) @ [EntityStateReport (m_id e) state (Code code)])
   \<and> published (setState state code (setState state code (setStateMsg state' message e))) =
        published (setStateMsg state' message e) @ [EntityStateReport (m_id e) state (Code code)]
   \<and> ((m_entity_state e, m_entity_state_code e) \<noteq> (state, int code) \<longrightarrow>
        published (setState state code (setState state code e)) =
          published e @ [EntityStateReport (m_id e) state (Code code)])"
proof -
  have 1: "\<exists>e'. setState_call state code e = Returns () e'"
    by (simp add: setState_call_def)
  have 2: "next_do (setState_call state code e) (setState_call state code) = setState_call state code e"
    by (simp add: setState_call_def next_do_def bind_def setState_idem)
  have 3: "(setState state code ^^ Suc n) e = setState state code e"
    by (rule setState_funpow)
  have 4: "published (setState state code (setState state code (Entity_new unk_eid state0))) =
        [EntityStateReport unk_eid state (Code code)]"
    by (simp add: setState_def Entity_new_def)
  have 5: "m_entity_state_code e = - 1 \<longrightarrow>
        published (setState state code (setState state code e)) =
          published e @ [EntityStateReport (m_id e) state (Code code)]"
    by (simp add: setState_def)
  have 6: "(state', code') \<noteq> (state, code) \<longrightarrow>
        published (setState state code (setState state code (setState state' code' e))) =
          published (setState state' code' e) @ [EntityStateReport (m_id e) state (Code code)]"
    by (auto simp add: setState_def)
  have 7: "published (setState state code (setState state code (setStateMsg state' message e))) =
        published (setStateMsg state' message e) @ [EntityStateReport (m_id e) state (Code code)]"
    by (simp add: setState_def setStateMsg_def)
  have 8: "(m_entity_state e, m_entity_state_code e) \<noteq> (state, int code) \<longrightarrow>
        published (setState state code (setState state code e)) =
          published e @ [EntityStateReport (m_id e) state (Code code)]"
    by (simp add: setState_def)
  show ?thesis using 1 2 3 4 5 6 7 8 by blast
qed

theorem setState_twice_witness:
  "m_entity_state_code entity0 = - 1
   \<and> (ESTA_BOOT, 0 :: nat) \<noteq> (ESTA_NORMAL, 1)
   \<and> (m_entity_state entity0, m_entity_state_code entity0) \<noteq> (ESTA_NORMAL, int 1)
   \<and> published (setState ESTA_NORMAL 1 (setState ESTA_NORMAL 1 entity0)) =
        [EntityStateReport 12 ESTA_NORMAL (Code 1)]
   \<and> published (setState ESTA_NORMAL 1 (setState ESTA_NORMAL 1 (setState ESTA_BOOT 0 entity0))) =
        [EntityStateReport 12 ESTA_BOOT (Code 0), EntityStateReport 12 ESTA_NORMAL (Code 1)]"
proof -
  have a: "m_entity_state_code entity0 = - 1" "m_id entity0 = 12" "published entity0 = []"
    "(m_entity_state entity0, m_entity_state_code entity0) \<noteq> (ESTA_NORMAL, int 1)"
    by (simp_all add: entity0_def)
  have b: "(ESTA_BOOT, 0 :: nat) \<noteq> (ESTA_NORMAL, 1)" by simp
  have c: "published (setState ESTA_BOOT 0 entity0) = [EntityStateReport 12 ESTA_BOOT (Code 0)]"
    by (simp add: setState_def entity0_def)
  from setState_twice [of ESTA_NORMAL 1 entity0 0 0 ESTA_BOOT ESTA_BOOT 0 "[]"] a b
  have "published (setState ESTA_NORMAL 1 (setState ESTA_NORMAL 1 entity0)) =
          published entity0 @ [EntityStateReport (m_id entity0) ESTA_NORMAL (Code 1)]"
    and "published (setState ESTA_NORMAL 1 (setState ESTA_NORMAL 1 (setState ESTA_BOOT 0 entity0))) =
          published (setState ESTA_BOOT 0 entity0) @ [EntityStateReport (m_id entity0) ESTA_NORMAL (Code 1)]"
    by blast+
  then show ?thesis using a b c by simp
qed

section \<open>The pending activation request\<close>

lemma apply_request_in_flight:
  "in_flight e \<Longrightarrow> apply_request r e = e\<lparr>m_next_act_state := slot_of r\<rparr>"
  by (cases r) (simp_all add: requestActivation_def requestDeactivation_def)

lemma requests_in_flight:
  "in_flight e \<Longrightarrow> rs \<noteq> [] \<Longrightarrow> requests rs e = e\<lparr>m_next_act_state := slot_of (last rs)\<rparr>"
proof (induction rs arbitrary: e)
  case Nil
  then show ?case by simp
next
  case (Cons r rs)
  have step: "apply_request r e = e\<lparr>m_next_act_state := slot_of r\<rparr>"
    using Cons.prems(1) by (rule apply_request_in_flight)
  have fl: "in_flight (apply_request r e)"
    using Cons.prems(1) by (simp add: step in_flight_def isActivating_def isDeactivating_def)
  show ?case
  proof (cases "rs = []")
    case True
    then show ?thesis by (simp add: requests_def step)
  next
    case False
    have "requests (r # rs) e = requests rs (apply_request r e)"
      by (simp add: requests_def)
    also have "\<dots> = (apply_request r e)\<lparr>m_next_act_state := slot_of (last rs)\<rparr>"
      using Cons.IH [OF fl False] .
    finally show ?thesis using False by (simp add: step)
  qed
qed

lemma act_on_pending_slot:
  "m_next_act_state x = slot_of r \<Longrightarrow>
     act_on_pending x = apply_request r (x\<lparr>m_next_act_state := NAS_SAME\<rparr>)"
  by (cases r) (simp_all add: act_on_pending_def)

lemma setStateMsg_next:
  "(setStateMsg state message x)\<lparr>m_next_act_state := v\<rparr> =
     setStateMsg state message (x\<lparr>m_next_act_state := v\<rparr>)"
  "m_next_act_state (setStateMsg state message x) = m_next_act_state x"
  "m_act_state (setStateMsg state message x) = m_act_state x"
  by (simp_all add: setStateMsg_def)

lemma reportActivationState_next:
  "(reportActivationState x)\<lparr>m_next_act_state := v\<rparr> =
     reportActivationState (x\<lparr>m_next_act_state := v\<rparr>)"
  "m_next_act_state (reportActivationState x) = m_next_act_state x"
  "m_act_state (reportActivationState x) = m_act_state x"
  "m_entity_state (reportActivationState x) = m_entity_state x"
  by (simp_all add: reportActivationState_def)

lemma outcome_pending:
  "isActivating e \<Longrightarrow> succeedActivation (e\<lparr>m_next_act_state := slot_of r\<rparr>) =
     apply_request r (reportActivationState (e\<lparr>m_act_state := EAS_ACTIVE, m_next_act_state := NAS_SAME\<rparr>))"
  "isActivating e \<Longrightarrow> failActivation reason (e\<lparr>m_next_act_state := slot_of r\<rparr>) =
     apply_request r (setStateMsg ESTA_ERROR reason
        (reportActivationState (e\<lparr>m_act_state := EAS_INACTIVE, m_next_act_state := NAS_SAME\<rparr>)))"
  "isDeactivating e \<Longrightarrow> succeedDeactivation (e\<lparr>m_next_act_state := slot_of r\<rparr>) =
     apply_request r (reportActivationState (e\<lparr>m_act_state := EAS_INACTIVE, m_next_act_state := NAS_SAME\<rparr>))"
  "isDeactivating e \<Longrightarrow> failDeactivation reason (e\<lparr>m_next_act_state := slot_of r\<rparr>) =
     apply_request r (setStateMsg ESTA_ERROR reason
        (reportActivationState (e\<lparr>m_act_state := EAS_ACTIVE, m_next_act_state := NAS_SAME\<rparr>)))"
proof -
  show "isActivating e \<Longrightarrow> succeedActivation (e\<lparr>m_next_act_state := slot_of r\<rparr>) =
     apply_request r (reportActivationState (e\<lparr>m_act_state := EAS_ACTIVE, m_next_act_state := NAS_SAME\<rparr>))"
    by (simp add: succeedActivation_def isActivating_def
        act_on_pending_slot [of _ r] reportActivationState_next)
  show "isActivating e \<Longrightarrow> failActivation reason (e\<lparr>m_next_act_state := slot_of r\<rparr>) =
     apply_request r (setStateMsg ESTA_ERROR reason
        (reportActivationState (e\<lparr>m_act_state := EAS_INACTIVE, m_next_act_state := NAS_SAME\<rparr>)))"
    by (simp add: failActivation_def isActivating_def
        act_on_pending_slot [of _ r] reportActivationState_next setStateMsg_next)
  show "isDeactivating e \<Longrightarrow> succeedDeactivation (e\<lparr>m_next_act_state := slot_of r\<rparr>) =
     apply_request r (reportActivationState (e\<lparr>m_act_state := EAS_INACTIVE, m_next_act_state := NAS_SAME\<rparr>))"
    by (simp add: succeedDeactivation_def isDeactivating_def
        act_on_pending_slot [of _ r] reportActivationState_next)
  show "isDeactivating e \<Longrightarrow> failDeactivation reason (e\<lparr>m_next_act_state := slot_of r\<rparr>) =
     apply_request r (setStateMsg ESTA_ERROR reason
        (reportActivationState (e\<lparr>m_act_state := EAS_ACTIVE, m_next_act_state := NAS_SAME\<rparr>)))"
    by (simp add: failDeactivation_def isDeactivating_def
        act_on_pending_slot [of _ r] reportActivationState_next setStateMsg_next)
qed

lemma apply_request_at_rest:
  "m_act_state x = EAS_ACTIVE \<Longrightarrow>
     m_act_state (apply_request r x) = (case r of ReqActivation \<Rightarrow> EAS_ACTIVE | ReqDeactivation \<Rightarrow> EAS_DEACT_IP)
     \<and> m_next_act_state (apply_request r x) = m_next_act_state x
     \<and> m_entity_state (apply_request r x) = m_entity_state x"
  "m_act_state x = EAS_INACTIVE \<Longrightarrow>
     m_act_state (apply_request r x) = (case r of ReqActivation \<Rightarrow> EAS_ACT_IP | ReqDeactivation \<Rightarrow> EAS_INACTIVE)
     \<and> m_next_act_state (apply_request r x) = m_next_act_state x
     \<and> m_entity_state (apply_request r x) = m_entity_state x"
  by (cases r; simp add: requestActivation_def requestDeactivation_def in_flight_def
      isActivating_def isDeactivating_def reportActivationState_def)+


text \<open>
  C2: while a transition is in flight, after any sequence of requests that is not empty
  the pending slot holds the last request, the activation state has not moved, and the
  entity is the one that the last request alone would have left. Each of the four
  outcomes of the transition then acts on that request and on no other: the entity it
  leaves is the one that the last request makes of the entity brought to rest with an
  empty slot. After a successful activation the entity is active or, if the last request
  was a deactivation, deactivating; after a failed activation it is inactive with the
  state Error or, if the last request was an activation, activating again; after a
  successful deactivation it is inactive or, if the last request was an activation,
  activating; after a failed deactivation it is active with the state Error or, if the
  last request was a deactivation, deactivating again. The slot is empty afterwards.
\<close>

theorem pending_request_last_wins:
  assumes "in_flight e" and "rs \<noteq> []"
  shows "m_next_act_state (requests rs e) = slot_of (last rs)
    \<and> m_act_state (requests rs e) = m_act_state e
    \<and> requests rs e = apply_request (last rs) e
    \<and> (isActivating e \<longrightarrow>
         succeedActivation (requests rs e) =
           apply_request (last rs)
             (reportActivationState (e\<lparr>m_act_state := EAS_ACTIVE, m_next_act_state := NAS_SAME\<rparr>))
         \<and> m_act_state (succeedActivation (requests rs e)) =
             (case last rs of ReqActivation \<Rightarrow> EAS_ACTIVE | ReqDeactivation \<Rightarrow> EAS_DEACT_IP)
         \<and> m_next_act_state (succeedActivation (requests rs e)) = NAS_SAME
         \<and> failActivation reason (requests rs e) =
             apply_request (last rs)
               (setStateMsg ESTA_ERROR reason
                  (reportActivationState
                     (e\<lparr>m_act_state := EAS_INACTIVE, m_next_act_state := NAS_SAME\<rparr>)))
         \<and> m_act_state (failActivation reason (requests rs e)) =
             (case last rs of ReqActivation \<Rightarrow> EAS_ACT_IP | ReqDeactivation \<Rightarrow> EAS_INACTIVE)
         \<and> m_next_act_state (failActivation reason (requests rs e)) = NAS_SAME
         \<and> m_entity_state (failActivation reason (requests rs e)) = ESTA_ERROR)
    \<and> (isDeactivating e \<longrightarrow>
         succeedDeactivation (requests rs e) =
           apply_request (last rs)
             (reportActivationState (e\<lparr>m_act_state := EAS_INACTIVE, m_next_act_state := NAS_SAME\<rparr>))
         \<and> m_act_state (succeedDeactivation (requests rs e)) =
             (case last rs of ReqActivation \<Rightarrow> EAS_ACT_IP | ReqDeactivation \<Rightarrow> EAS_INACTIVE)
         \<and> m_next_act_state (succeedDeactivation (requests rs e)) = NAS_SAME
         \<and> failDeactivation reason (requests rs e) =
             apply_request (last rs)
               (setStateMsg ESTA_ERROR reason
                  (reportActivationState
                     (e\<lparr>m_act_state := EAS_ACTIVE, m_next_act_state := NAS_SAME\<rparr>)))
         \<and> m_act_state (failDeactivation reason (requests rs e)) =
             (case last rs of ReqActivation \<Rightarrow> EAS_ACTIVE | ReqDeactivation \<Rightarrow> EAS_DEACT_IP)
         \<and> m_next_act_state (failDeactivation reason (requests rs e)) = NAS_SAME
         \<and> m_entity_state (failDeactivation reason (requests rs e)) = ESTA_ERROR)"
proof -
  let ?r = "last rs"
  have eq: "requests rs e = e\<lparr>m_next_act_state := slot_of ?r\<rparr>"
    using assms by (rule requests_in_flight)
  have one: "apply_request ?r e = e\<lparr>m_next_act_state := slot_of ?r\<rparr>"
    using assms(1) by (rule apply_request_in_flight)
  have base: "m_next_act_state (requests rs e) = slot_of ?r"
    "m_act_state (requests rs e) = m_act_state e" "requests rs e = apply_request ?r e"
    by (simp_all add: eq one)
  let ?a = "reportActivationState (e\<lparr>m_act_state := EAS_ACTIVE, m_next_act_state := NAS_SAME\<rparr>)"
  let ?i = "reportActivationState (e\<lparr>m_act_state := EAS_INACTIVE, m_next_act_state := NAS_SAME\<rparr>)"
  have a: "m_act_state ?a = EAS_ACTIVE" "m_next_act_state ?a = NAS_SAME"
    and i: "m_act_state ?i = EAS_INACTIVE" "m_next_act_state ?i = NAS_SAME"
    by (simp_all add: reportActivationState_next)
  have ea: "m_act_state (setStateMsg ESTA_ERROR reason ?a) = EAS_ACTIVE"
    "m_next_act_state (setStateMsg ESTA_ERROR reason ?a) = NAS_SAME"
    "m_entity_state (setStateMsg ESTA_ERROR reason ?a) = ESTA_ERROR"
    and ei: "m_act_state (setStateMsg ESTA_ERROR reason ?i) = EAS_INACTIVE"
    "m_next_act_state (setStateMsg ESTA_ERROR reason ?i) = NAS_SAME"
    "m_entity_state (setStateMsg ESTA_ERROR reason ?i) = ESTA_ERROR"
    by (simp_all add: setStateMsg_next setStateMsg_state a i)
  have act: "isActivating e \<longrightarrow>
         succeedActivation (requests rs e) = apply_request ?r ?a
         \<and> m_act_state (succeedActivation (requests rs e)) =
             (case ?r of ReqActivation \<Rightarrow> EAS_ACTIVE | ReqDeactivation \<Rightarrow> EAS_DEACT_IP)
         \<and> m_next_act_state (succeedActivation (requests rs e)) = NAS_SAME
         \<and> failActivation reason (requests rs e) =
             apply_request ?r (setStateMsg ESTA_ERROR reason ?i)
         \<and> m_act_state (failActivation reason (requests rs e)) =
             (case ?r of ReqActivation \<Rightarrow> EAS_ACT_IP | ReqDeactivation \<Rightarrow> EAS_INACTIVE)
         \<and> m_next_act_state (failActivation reason (requests rs e)) = NAS_SAME
         \<and> m_entity_state (failActivation reason (requests rs e)) = ESTA_ERROR"
  proof
    assume h: "isActivating e"
    have 1: "succeedActivation (requests rs e) = apply_request ?r ?a"
      unfolding eq using h by (rule outcome_pending(1))
    have 2: "failActivation reason (requests rs e) = apply_request ?r (setStateMsg ESTA_ERROR reason ?i)"
      unfolding eq using h by (rule outcome_pending(2))
    show "succeedActivation (requests rs e) = apply_request ?r ?a
         \<and> m_act_state (succeedActivation (requests rs e)) =
             (case ?r of ReqActivation \<Rightarrow> EAS_ACTIVE | ReqDeactivation \<Rightarrow> EAS_DEACT_IP)
         \<and> m_next_act_state (succeedActivation (requests rs e)) = NAS_SAME
         \<and> failActivation reason (requests rs e) =
             apply_request ?r (setStateMsg ESTA_ERROR reason ?i)
         \<and> m_act_state (failActivation reason (requests rs e)) =
             (case ?r of ReqActivation \<Rightarrow> EAS_ACT_IP | ReqDeactivation \<Rightarrow> EAS_INACTIVE)
         \<and> m_next_act_state (failActivation reason (requests rs e)) = NAS_SAME
         \<and> m_entity_state (failActivation reason (requests rs e)) = ESTA_ERROR"
      unfolding 1 2
      using apply_request_at_rest(1) [OF a(1), of ?r] apply_request_at_rest(2) [OF ei(1), of ?r]
      by (simp add: a ei)
  qed
  have deact: "isDeactivating e \<longrightarrow>
         succeedDeactivation (requests rs e) = apply_request ?r ?i
         \<and> m_act_state (succeedDeactivation (requests rs e)) =
             (case ?r of ReqActivation \<Rightarrow> EAS_ACT_IP | ReqDeactivation \<Rightarrow> EAS_INACTIVE)
         \<and> m_next_act_state (succeedDeactivation (requests rs e)) = NAS_SAME
         \<and> failDeactivation reason (requests rs e) =
             apply_request ?r (setStateMsg ESTA_ERROR reason ?a)
         \<and> m_act_state (failDeactivation reason (requests rs e)) =
             (case ?r of ReqActivation \<Rightarrow> EAS_ACTIVE | ReqDeactivation \<Rightarrow> EAS_DEACT_IP)
         \<and> m_next_act_state (failDeactivation reason (requests rs e)) = NAS_SAME
         \<and> m_entity_state (failDeactivation reason (requests rs e)) = ESTA_ERROR"
  proof
    assume h: "isDeactivating e"
    have 1: "succeedDeactivation (requests rs e) = apply_request ?r ?i"
      unfolding eq using h by (rule outcome_pending(3))
    have 2: "failDeactivation reason (requests rs e) = apply_request ?r (setStateMsg ESTA_ERROR reason ?a)"
      unfolding eq using h by (rule outcome_pending(4))
    show "succeedDeactivation (requests rs e) = apply_request ?r ?i
         \<and> m_act_state (succeedDeactivation (requests rs e)) =
             (case ?r of ReqActivation \<Rightarrow> EAS_ACT_IP | ReqDeactivation \<Rightarrow> EAS_INACTIVE)
         \<and> m_next_act_state (succeedDeactivation (requests rs e)) = NAS_SAME
         \<and> failDeactivation reason (requests rs e) =
             apply_request ?r (setStateMsg ESTA_ERROR reason ?a)
         \<and> m_act_state (failDeactivation reason (requests rs e)) =
             (case ?r of ReqActivation \<Rightarrow> EAS_ACTIVE | ReqDeactivation \<Rightarrow> EAS_DEACT_IP)
         \<and> m_next_act_state (failDeactivation reason (requests rs e)) = NAS_SAME
         \<and> m_entity_state (failDeactivation reason (requests rs e)) = ESTA_ERROR"
      unfolding 1 2
      using apply_request_at_rest(2) [OF i(1), of ?r] apply_request_at_rest(1) [OF ea(1), of ?r]
      by (simp add: i ea)
  qed
  show ?thesis using base act deact by blast
qed

theorem pending_request_last_wins_witness:
  "in_flight entity_activating \<and> isActivating entity_activating
   \<and> in_flight entity_deactivating \<and> isDeactivating entity_deactivating
   \<and> [ReqDeactivation, ReqActivation, ReqDeactivation] \<noteq> []
   \<and> [ReqDeactivation, ReqActivation] \<noteq> []
   \<and> m_next_act_state (requests [ReqDeactivation, ReqActivation, ReqDeactivation] entity_activating)
        = NAS_INACTIVE
   \<and> m_act_state (succeedActivation
        (requests [ReqDeactivation, ReqActivation, ReqDeactivation] entity_activating))
        = EAS_DEACT_IP
   \<and> m_act_state (failActivation ''no device''
        (requests [ReqDeactivation, ReqActivation, ReqDeactivation] entity_activating))
        = EAS_INACTIVE
   \<and> m_act_state (failActivation ''no device''
        (requests [ReqDeactivation, ReqActivation] entity_activating))
        = EAS_ACT_IP
   \<and> m_entity_state (failActivation ''no device''
        (requests [ReqDeactivation, ReqActivation] entity_activating))
        = ESTA_ERROR
   \<and> m_act_state (succeedDeactivation
        (requests [ReqDeactivation, ReqActivation] entity_deactivating))
        = EAS_ACT_IP
   \<and> m_act_state (failDeactivation ''busy''
        (requests [ReqDeactivation, ReqActivation, ReqDeactivation] entity_deactivating))
        = EAS_DEACT_IP"
proof -
  have a: "in_flight entity_activating" "isActivating entity_activating"
    by (simp_all add: in_flight_def isActivating_def entity_activating_def)
  have b: "in_flight entity_deactivating" "isDeactivating entity_deactivating"
    by (simp_all add: in_flight_def isDeactivating_def entity_deactivating_def)
  have c: "[ReqDeactivation, ReqActivation, ReqDeactivation] \<noteq> []"
    and c': "[ReqDeactivation, ReqActivation] \<noteq> []"
    by simp_all
  have d: "last [ReqDeactivation, ReqActivation, ReqDeactivation] = ReqDeactivation"
    "last [ReqDeactivation, ReqActivation] = ReqActivation"
    by simp_all
  note t1 = pending_request_last_wins [OF a(1) c, of "''no device''", unfolded d slot_of.simps request.case]
  note t2 = pending_request_last_wins [OF a(1) c', of "''no device''", unfolded d slot_of.simps request.case]
  note t3 = pending_request_last_wins [OF b(1) c', of "''busy''", unfolded d slot_of.simps request.case]
  note t4 = pending_request_last_wins [OF b(1) c, of "''busy''", unfolded d slot_of.simps request.case]
  have 1: "m_next_act_state (requests [ReqDeactivation, ReqActivation, ReqDeactivation] entity_activating)
        = NAS_INACTIVE"
    using t1 by blast
  have 2: "m_act_state (succeedActivation
        (requests [ReqDeactivation, ReqActivation, ReqDeactivation] entity_activating))
        = EAS_DEACT_IP"
    and 3: "m_act_state (failActivation ''no device''
        (requests [ReqDeactivation, ReqActivation, ReqDeactivation] entity_activating))
        = EAS_INACTIVE"
    using t1 a(2) by blast+
  have 4: "m_act_state (failActivation ''no device''
        (requests [ReqDeactivation, ReqActivation] entity_activating))
        = EAS_ACT_IP"
    and 5: "m_entity_state (failActivation ''no device''
        (requests [ReqDeactivation, ReqActivation] entity_activating))
        = ESTA_ERROR"
    using t2 a(2) by blast+
  have 6: "m_act_state (succeedDeactivation
        (requests [ReqDeactivation, ReqActivation] entity_deactivating))
        = EAS_ACT_IP"
    using t3 b(2) by blast
  have 7: "m_act_state (failDeactivation ''busy''
        (requests [ReqDeactivation, ReqActivation, ReqDeactivation] entity_deactivating))
        = EAS_DEACT_IP"
    using t4 b(2) by blast
  show ?thesis using a b c c' 1 2 3 4 5 6 7 by blast
qed

section \<open>Releasing resources\<close>

lemma AMC_release_idem: "AMC_onResourceRelease (AMC_onResourceRelease t) = AMC_onResourceRelease t"
  by (simp add: AMC_onResourceRelease_def split: option.splits)

lemma AMC_release_released:
  "m_uart (AMC_onResourceRelease t) = None \<and>
   (\<forall>h. m_uart t = Some h \<longrightarrow>
      h \<notin> set (m_poll (AMC_onResourceRelease t)) \<and> w_ports (AMC_onResourceRelease t) h = None)"
  by (simp add: AMC_onResourceRelease_def split: option.splits)

lemma AMC_acquired:
  "AMC_onResourceAcquisition D (Some h) t = Returns u t1 \<Longrightarrow> m_uart t1 = Some h"
  by (auto simp: AMC_onResourceAcquisition_def Let_def)

lemma UI2210MGL_release_idem:
  "UI2210MGL_onResourceRelease (UI2210MGL_onResourceRelease c) = UI2210MGL_onResourceRelease c"
  by (simp add: UI2210MGL_onResourceRelease_def split: option.splits)

lemma UI2210MGL_release_released:
  "m_capture (UI2210MGL_onResourceRelease c) = None \<and>
   (\<forall>h. m_capture c = Some h \<longrightarrow> w_captures (UI2210MGL_onResourceRelease c) h = None)"
  by (simp add: UI2210MGL_onResourceRelease_def split: option.splits)

lemma UI2210MGL_acquired:
  "UI2210MGL_onResourceAcquisition h c = Returns u c' \<Longrightarrow> m_capture c' = Some h"
  by (auto simp: UI2210MGL_onResourceAcquisition_def Let_def capture_do_def next_do_def bind_def
      split: option.splits if_splits)

text \<open>
  C6: for both tasks \<^verbatim>\<open>onResourceRelease\<close> called twice leaves the state that one call
  leaves. After a call the handle is null; the serial port that \<^verbatim>\<open>m_uart\<close> pointed to is
  out of the multiplexer and no longer alive, and the capture object that \<^verbatim>\<open>m_capture\<close>
  pointed to is no longer alive. In particular this holds of the object that
  \<^verbatim>\<open>onResourceAcquisition\<close> has just created.
\<close>

theorem onResourceRelease_idempotent:
  "AMC_onResourceRelease (AMC_onResourceRelease t) = AMC_onResourceRelease t
   \<and> m_uart (AMC_onResourceRelease t) = None
   \<and> (\<forall>h. m_uart t = Some h \<longrightarrow>
         h \<notin> set (m_poll (AMC_onResourceRelease t)) \<and> w_ports (AMC_onResourceRelease t) h = None)
   \<and> (\<forall>h t1. AMC_onResourceAcquisition D (Some h) t = Returns () t1 \<longrightarrow>
         m_uart (AMC_onResourceRelease t1) = None
         \<and> h \<notin> set (m_poll (AMC_onResourceRelease t1))
         \<and> w_ports (AMC_onResourceRelease t1) h = None)
   \<and> UI2210MGL_onResourceRelease (UI2210MGL_onResourceRelease c) = UI2210MGL_onResourceRelease c
   \<and> m_capture (UI2210MGL_onResourceRelease c) = None
   \<and> (\<forall>h. m_capture c = Some h \<longrightarrow> w_captures (UI2210MGL_onResourceRelease c) h = None)
   \<and> (\<forall>h c'. UI2210MGL_onResourceAcquisition h c = Returns () c' \<longrightarrow>
         m_capture (UI2210MGL_onResourceRelease c') = None
         \<and> w_captures (UI2210MGL_onResourceRelease c') h = None)"
  using AMC_release_idem [of t] AMC_release_released AMC_acquired [of D _ t]
    UI2210MGL_release_idem [of c] UI2210MGL_release_released UI2210MGL_acquired [of _ c]
  by blast

theorem onResourceRelease_idempotent_witness:
  "m_uart amc_main = Some 1
   \<and> 1 \<in> set (m_poll amc_main)
   \<and> w_ports amc_main 1 \<noteq> None
   \<and> m_uart (AMC_onResourceRelease amc_main) = None
   \<and> 1 \<notin> set (m_poll (AMC_onResourceRelease amc_main))
   \<and> w_ports (AMC_onResourceRelease amc_main) 1 = None
   \<and> m_capture cam_running = Some 5
   \<and> w_captures cam_running 5 \<noteq> None
   \<and> m_capture (UI2210MGL_onResourceRelease cam_running) = None
   \<and> w_captures (UI2210MGL_onResourceRelease cam_running) 5 = None"
proof -
  have a: "m_uart amc_main = Some 1" "1 \<in> set (m_poll amc_main)" "w_ports amc_main 1 \<noteq> None"
    by (simp_all add: amc_main_def amc0_def)
  have b: "m_capture cam_running = Some 5" "w_captures cam_running 5 \<noteq> None"
    by (simp_all add: cam_running_def cam0_def)
  show ?thesis
    using a b onResourceRelease_idempotent [of amc_main D0 cam_running] by simp
qed

section \<open>Parameter updates of the camera task\<close>

text \<open>
  C7, as the code has it: the first invocation of \<^verbatim>\<open>onUpdateParameters\<close>, the one that
  finds \<^verbatim>\<open>m_starting\<close> set, only clears the flag. Every later invocation, made while the
  capture object exists, sets \<^verbatim>\<open>m_log_dir\<close> to the log directory parameter and passes
  the area of interest, the frames per second and the auto gain to the capture object, in
  this order.
\<close>

theorem onUpdateParameters_applies:
  "(m_starting t \<longrightarrow> UI2210MGL_onUpdateParameters t = Returns () (t\<lparr>m_starting := False\<rparr>))
   \<and> (\<not> m_starting t \<and> m_capture t = Some h \<and> w_captures t h = Some obj \<longrightarrow>
        UI2210MGL_onUpdateParameters t =
          Returns ()
            (t\<lparr>m_log_dir := log_dir (cam_args t),
               w_captures := (w_captures t)
                 (h \<mapsto> obj\<lparr>calls := calls obj @
                    [SetAOI (aoi (cam_args t)), SetFPS (fps (cam_args t)),
                     SetAutoGain (auto_gain (cam_args t))]\<rparr>)\<rparr>))"
  by (simp add: UI2210MGL_onUpdateParameters_def capture_do_def next_do_def bind_def)

theorem onUpdateParameters_applies_witness:
  "\<not> m_starting cam_running \<and> m_capture cam_running = Some 5
   \<and> w_captures cam_running 5 =
       Some \<lparr>ctor_aoi = aoi (cam_args cam0), ctor_cam = 1, ctor_fps = 30,
             calls = [Start, SetAutoGain True]\<rparr>
   \<and> (\<exists>t'. UI2210MGL_onUpdateParameters cam_running = Returns () t'
        \<and> m_log_dir t' = ''/log''
        \<and> map_option calls (w_captures t' 5) =
            Some [Start, SetAutoGain True,
                  SetAOI \<lparr>aoi_x = 0, aoi_y = 0, aoi_width = 640, aoi_height = 250\<rparr>,
                  SetFPS 30, SetAutoGain True])"
proof -
  have a: "\<not> m_starting cam_running" "m_capture cam_running = Some 5"
    "w_captures cam_running 5 =
       Some \<lparr>ctor_aoi = aoi (cam_args cam0), ctor_cam = 1, ctor_fps = 30,
             calls = [Start, SetAutoGain True]\<rparr>"
    by (simp_all add: cam_running_def cam0_def)
  have b: "log_dir (cam_args cam_running) = ''/log''"
    "aoi (cam_args cam_running) = \<lparr>aoi_x = 0, aoi_y = 0, aoi_width = 640, aoi_height = 250\<rparr>"
    "fps (cam_args cam_running) = 30" "auto_gain (cam_args cam_running)"
    by (simp_all add: cam_running_def cam0_def)
  show ?thesis
    using a b
      onUpdateParameters_applies [of cam_running 5
        "\<lparr>ctor_aoi = aoi (cam_args cam0), ctor_cam = 1, ctor_fps = 30,
          calls = [Start, SetAutoGain True]\<rparr>"]
    by simp
qed

text \<open>
  C7 as it is written fails at the first invocation: the task as constructed has the log
  directory parameter \<^verbatim>\<open>/log\<close>, and after \<^verbatim>\<open>onUpdateParameters\<close> its \<^verbatim>\<open>m_log_dir\<close> is
  still the directory of the context.
\<close>

theorem onUpdateParameters_first_counterexample:
  "UI2210MGL_onUpdateParameters cam0 = Returns () (cam0\<lparr>m_starting := False\<rparr>)
   \<and> m_log_dir (cam0\<lparr>m_starting := False\<rparr>) \<noteq> log_dir (cam_args cam0)"
  by (simp add: UI2210MGL_onUpdateParameters_def cam0_def)

section \<open>Frames written to the serial port\<close>

lemma digit_char_not_NUL: "d < 10 \<Longrightarrow> digit_char d \<noteq> NUL"
proof -
  assume "d < 10"
  then have "d \<in> {0,1,2,3,4,5,6,7,8,9}" by auto
  then show ?thesis by (auto simp: digit_char_def NUL_def)
qed

lemma dec_nat_no_NUL: "NUL \<notin> set (dec_nat n)"
proof (induction n rule: dec_nat.induct)
  case (1 n)
  show ?case
  proof (cases "n < 10")
    case True
    then show ?thesis using digit_char_not_NUL [of n] by (simp add: dec_nat.simps [of n])
  next
    case False
    have "n mod 10 < 10" by simp
    then have "digit_char (n mod 10) \<noteq> NUL" by (rule digit_char_not_NUL)
    with False 1 show ?thesis by (auto simp add: dec_nat.simps [of n])
  qed
qed

lemma dec_int_no_NUL: "NUL \<notin> set (dec_int i)"
  using dec_nat_no_NUL by (auto simp: dec_int_def NUL_def)

lemma strlen_padded: "NUL \<notin> set cs \<Longrightarrow> strlen (cs @ replicate k NUL) = length cs"
  by (induction cs) (auto simp: strlen_def takeWhile_eq_Nil_iff)

lemma set_text_no_NUL: "NUL \<notin> set (set_text motor rpm)"
  using dec_int_no_NUL by (auto simp: set_text_def NUL_def)

lemma read_text_no_NUL: "NUL \<notin> set (read_text motor f)"
  using dec_int_no_NUL by (cases f) (auto simp: read_text_def field_name_def NUL_def)

lemma length_bytes: "length (bytes cs) = length cs"
  by (simp add: bytes_def)

lemma send_frame:
  assumes "NUL \<notin> set cs"
  shows "next_do (sprintf_m_msg cs t) (send_m_msg D) =
     (if \<not> fits cs then Undefined BufferOverflow
      else case m_uart t of
             None \<Rightarrow> Undefined NullPointer
           | Some h \<Rightarrow> Returns (int (length cs) + 1) (after_send D cs h t))"
proof (cases "fits cs")
  case False
  then show ?thesis by (simp add: sprintf_m_msg_def fits_def next_do_def bind_def)
next
  case True
  have len: "strlen (cs @ replicate (c_max_buffer - length cs) NUL) = length cs"
    using assms by (rule strlen_padded)
  show ?thesis
    using True
    by (simp add: sprintf_m_msg_def fits_def next_do_def bind_def send_m_msg_def Let_def len
        uart_write_def after_send_def spec_frame_def butlast_conv_take length_bytes split: option.splits)
qed

lemma setRPM_eq:
  "setRPM D motor rpm t =
     (if \<not> fits (set_text motor rpm) then Undefined BufferOverflow
      else case m_uart t of
             None \<Rightarrow> Undefined NullPointer
           | Some h \<Rightarrow> Returns (int (length (set_text motor rpm)) + 1)
                         (after_send D (set_text motor rpm) h t))"
  unfolding setRPM_def set_text_def [symmetric]
  by (rule send_frame [OF set_text_no_NUL])

lemma readParameterAMC_eq:
  "readParameterAMC D motor f t =
     (if \<not> fits (read_text motor f) then Undefined BufferOverflow
      else case m_uart t of
             None \<Rightarrow> Undefined NullPointer
           | Some h \<Rightarrow> Returns () (after_send D (read_text motor f) h t))"
proof -
  have "readParameterAMC D motor f t =
      bind (next_do (sprintf_m_msg (read_text motor f) t) (send_m_msg D)) (\<lambda>_. Returns ())"
    by (cases f) (simp_all add: readParameterAMC_def read_text_def field_name_def)
  then show ?thesis
    by (simp add: send_frame [OF read_text_no_NUL] bind_def split: option.splits)
qed

section \<open>Steps of the main loop\<close>

lemma steady_refl: "steady t t"
  by (simp add: steady_def)

lemma steady_trans: "steady t t1 \<Longrightarrow> steady t1 t2 \<Longrightarrow> steady t t2"
  by (simp add: steady_def)

lemma after_send_steady:
  "steady t (after_send D cs h t)"
  "m_cnt_motor (after_send D cs h t) = m_cnt_motor t"
  "m_wdog (after_send D cs h t) = m_wdog t"
  "m_parse (after_send D cs h t) = m_parse t"
  "m_uart (after_send D cs h t) = m_uart t"
  "w_bus (after_send D cs h t) = w_bus t"
  "w_tx (after_send D cs h t) = w_tx t @ map (Pair h) (spec_frame D cs)"
  by (simp_all add: after_send_def steady_def)

lemma set_text_not_read: "\<not> is_read_request (bytes (set_text motor rpm))"
  by (simp add: is_read_request_def set_text_def bytes_def)

lemma spec_frame_set_not_read:
  "\<forall>e \<in> set (map (Pair h) (spec_frame D (set_text motor rpm))). \<not> is_read_request (snd e)"
  using set_text_not_read [of motor rpm]
  by (simp add: spec_frame_def is_read_request_def bytes_def)

lemma setRPM_Returns:
  assumes "setRPM D motor rpm t = Returns n t'"
  shows "\<exists>h. m_uart t = Some h \<and> t' = after_send D (set_text motor rpm) h t"
  using assms by (auto simp: setRPM_eq split: if_splits option.splits)

lemma setRPM_float_Returns:
  assumes "setRPM_float D motor v t = Returns n t'"
  shows "\<exists>h rpm. m_uart t = Some h \<and> t' = after_send D (set_text motor rpm) h t"
  using assms setRPM_Returns by (fastforce simp: setRPM_float_def split: option.splits)

lemma quiet_refl: "quiet t t"
  by (simp add: quiet_def steady_refl)

lemma quiet_trans: "quiet t t1 \<Longrightarrow> quiet t1 t2 \<Longrightarrow> quiet t t2"
  unfolding quiet_def using steady_trans by fastforce

lemma setRPM_float_quiet:
  assumes "setRPM_float D motor v t = Returns n t'"
  shows "quiet t t'"
proof -
  from setRPM_float_Returns [OF assms] obtain h rpm
    where t': "t' = after_send D (set_text motor rpm) h t" by blast
  show ?thesis
    unfolding quiet_def t' using spec_frame_set_not_read [of h D motor rpm]
    by (simp add: after_send_steady)
qed

lemma consume_quiet:
  assumes "consume D msg t = Returns u t'"
  shows "quiet t t'"
proof -
  consider (a) "msg_id msg = 0" | (b) "msg_id msg \<noteq> 0" "msg_id msg = 1"
    | (c) "msg_id msg \<noteq> 0" "msg_id msg \<noteq> 1" by blast
  then show ?thesis
  proof cases
    case a
    with assms obtain n t1 m where 1: "setRPM_float D 0 (msg_value msg) t = Returns n t1"
      and 2: "setRPM_float D 1 (msg_value msg) t1 = Returns m t'"
      by (auto simp: consume_def next_do_def bind_def split: result.splits)
    show ?thesis using setRPM_float_quiet [OF 1] setRPM_float_quiet [OF 2] by (rule quiet_trans)
  next
    case b
    with assms obtain n t1 m where 1: "setRPM_float D 2 (msg_value msg) t = Returns n t1"
      and 2: "setRPM_float D 3 (msg_value msg) t1 = Returns m t'"
      by (auto simp: consume_def next_do_def bind_def split: result.splits)
    show ?thesis using setRPM_float_quiet [OF 1] setRPM_float_quiet [OF 2] by (rule quiet_trans)
  next
    case c
    with assms show ?thesis by (simp add: consume_def quiet_refl)
  qed
qed

lemma waitForMessages_quiet:
  "waitForMessages D msgs t = Returns u t' \<Longrightarrow> quiet t t'"
proof (induction msgs arbitrary: t)
  case Nil
  then show ?case by (simp add: quiet_refl)
next
  case (Cons msg msgs)
  from Cons.prems obtain t1 where 1: "consume D msg t = Returns () t1"
    and 2: "waitForMessages D msgs t1 = Returns u t'"
    by (auto simp: next_do_def bind_def split: result.splits)
  show ?case using consume_quiet [OF 1] Cons.IH [OF 2] by (rule quiet_trans)
qed

lemma checkSerialPort_Returns:
  assumes "checkSerialPort D x t = Returns u t'"
  shows "steady t t' \<and> m_cnt_motor t' = m_cnt_motor t \<and> m_wdog t' = m_wdog t \<and> w_tx t' = w_tx t"
  using assms
  by (auto simp: checkSerialPort_def steady_def Let_def split: option.splits if_splits rx.splits)

lemma dispatchRpm_Returns:
  assumes "dispatchRpm i rpm t = Returns u t'"
  shows "steady t t' \<and> m_cnt_motor t' = m_cnt_motor t \<and> m_wdog t' = m_wdog t \<and> w_tx t' = w_tx t"
  using assms
  by (auto simp: dispatchRpm_def resolveEntity_def bind_def steady_def Let_def
      split: option.splits if_splits)

lemma cnt_cases: "unat (c :: 8 word) < 4 \<Longrightarrow> c = 0 \<or> c = 1 \<or> c = 2 \<or> c = 3"
proof -
  assume "unat c < 4"
  then consider "unat c = 0" | "unat c = 1" | "unat c = 2" | "unat c = 3"
    by arith
  then show ?thesis
  proof cases
    case 1
    then have "word_of_nat (unat c) = (word_of_nat 0 :: 8 word)" by (simp only:)
    then show ?thesis by simp
  next
    case 2
    then have "word_of_nat (unat c) = (word_of_nat 1 :: 8 word)" by (simp only:)
    then show ?thesis by simp
  next
    case 3
    then have "word_of_nat (unat c) = (word_of_nat 2 :: 8 word)" by (simp only:)
    then show ?thesis by simp
  next
    case 4
    then have "word_of_nat (unat c) = (word_of_nat 3 :: 8 word)" by (simp only:)
    then show ?thesis by simp
  qed
qed

lemma read_text_cnt:
  "read_text 0 RPM = ''@R,0,rpm,*''"
  "read_text 1 RPM = ''@R,1,rpm,*''"
  "read_text 2 RPM = ''@R,2,rpm,*''"
  "read_text 3 RPM = ''@R,3,rpm,*''"
  by (simp_all add: read_text_def field_name_def dec_int_def dec_nat.simps digit_char_def)

lemma read_text_cnt_fits: "unat (c :: 8 word) < 4 \<Longrightarrow> fits (read_text (ucast c) RPM)"
  using cnt_cases [of c] by (auto simp: read_text_cnt fits_def c_max_buffer_def)

lemma next_cnt: "unat (c :: 8 word) < 4 \<Longrightarrow>
   (if c + 1 \<ge> 4 then 0 else c + 1) = word_of_nat ((unat c + 1) mod 4)"
  using cnt_cases [of c] by (auto simp: word_le_nat_alt)

lemma request_branch_Returns:
  assumes ret: "request_branch D k t = Returns u t'" and cnt: "unat (m_cnt_motor t) < 4"
  shows "steady t t' \<and>
     m_cnt_motor t' = word_of_nat ((unat (m_cnt_motor t) + 1) mod 4) \<and>
     (\<exists>h rest. m_uart t = Some h \<and>
        w_tx t' = w_tx t @ map (Pair h) (spec_frame D (read_text (ucast (m_cnt_motor t)) RPM)) @ rest \<and>
        (\<forall>e \<in> set rest. \<not> is_read_request (snd e)))"
proof -
  let ?cs = "read_text (ucast (m_cnt_motor t)) RPM"
  have f: "fits ?cs" using cnt by (rule read_text_cnt_fits)
  from ret f obtain h where h: "m_uart t = Some h"
    by (auto simp: request_branch_def readParameterAMC_eq next_do_def bind_def split: option.splits)
  define t1 where "t1 = after_send D ?cs h t"
  have r1: "readParameterAMC D (ucast (m_cnt_motor t)) RPM t = Returns () t1"
    using f h by (simp add: readParameterAMC_eq t1_def)
  from ret r1 obtain p where p: "m_parse t1 = Some p"
    by (auto simp: request_branch_def next_do_def bind_def split: option.splits)
  from ret r1 p obtain t2 where r2: "dispatchRpm (ucast (m_cnt_motor t1)) (motor_rpm D p (unat (m_cnt_motor t1))) t1 = Returns () t2"
    by (auto simp: request_branch_def next_do_def bind_def split: result.splits)
  define t4 where "t4 = t2\<lparr>m_cnt_motor := (if m_cnt_motor t2 + 1 \<ge> 4 then 0 else m_cnt_motor t2 + 1)\<rparr>"
  from ret r1 p r2 obtain t5 where r5: "waitForMessages D (inbox k) t4 = Returns () t5"
    and t': "t' = t5\<lparr>m_wdog := reset (clock_reset k) (m_wdog t5)\<rparr>"
    by (auto simp: request_branch_def next_do_def bind_def Let_def t4_def split: result.splits if_splits)
  have s1: "steady t t1" "m_cnt_motor t1 = m_cnt_motor t" "w_tx t1 = w_tx t @ map (Pair h) (spec_frame D ?cs)"
    by (simp_all add: t1_def after_send_steady)
  note s2 = dispatchRpm_Returns [OF r2]
  have c2: "m_cnt_motor t2 = m_cnt_motor t" using s1 s2 by simp
  have s4: "steady t2 t4" "w_tx t4 = w_tx t2"
    by (simp_all add: t4_def steady_def)
  have c4: "m_cnt_motor t4 = word_of_nat ((unat (m_cnt_motor t) + 1) mod 4)"
    unfolding t4_def c2 using next_cnt [OF cnt] by simp
  note q5 = waitForMessages_quiet [OF r5]
  then obtain rest where rest: "w_tx t5 = w_tx t4 @ rest" "\<forall>e \<in> set rest. \<not> is_read_request (snd e)"
    unfolding quiet_def by blast
  have s5: "steady t4 t5" "m_cnt_motor t5 = m_cnt_motor t4" using q5 by (simp_all add: quiet_def)
  have s': "steady t5 t'" "m_cnt_motor t' = m_cnt_motor t5" "w_tx t' = w_tx t5"
    by (simp_all add: t' steady_def reset_def)
  have "steady t t'"
    using s1(1) s2 s4(1) s5(1) s'(1) by (blast intro: steady_trans)
  moreover have "m_cnt_motor t' = word_of_nat ((unat (m_cnt_motor t) + 1) mod 4)"
    using s' s5 c4 by simp
  moreover have "w_tx t' = w_tx t @ map (Pair h) (spec_frame D ?cs) @ rest"
    using s' rest s4 s2 s1 by simp
  ultimately show ?thesis using h rest(2) by blast
qed

lemma poll_branch_Returns:
  assumes "poll_branch D k t = Returns u t'"
  shows "steady t t' \<and> m_cnt_motor t' = m_cnt_motor t \<and> w_tx t' = w_tx t"
proof -
  from assms obtain t1 where 1: "checkSerialPort D k t = Returns () t1"
    and t': "t' = t1\<lparr>m_wdog := reset (clock_reset k) (m_wdog t1)\<rparr>"
    by (auto simp: poll_branch_def next_do_def bind_def split: result.splits)
  show ?thesis using checkSerialPort_Returns [OF 1] by (simp add: t' steady_def reset_def)
qed

lemma set_text_stop:
  "set_text 0 0 = ''@S,0,0,*''" "set_text 1 0 = ''@S,1,0,*''"
  "set_text 2 0 = ''@S,2,0,*''" "set_text 3 0 = ''@S,3,0,*''"
  by (simp_all add: set_text_def dec_int_def dec_nat.simps digit_char_def)

lemma stopAllMotor_eq:
  assumes "m_uart t = Some h"
  shows "stopAllMotor D t =
    Returns () (after_send D ''@S,3,0,*'' h (after_send D ''@S,2,0,*'' h
      (after_send D ''@S,1,0,*'' h (after_send D ''@S,0,0,*'' h t))))"
  using assms
  by (simp add: stopAllMotor_def setRPM_eq set_text_stop fits_def c_max_buffer_def
      next_do_def bind_def after_send_steady)

lemma stopAllMotor_tx:
  assumes "m_uart t = Some h"
  shows "\<exists>t'. stopAllMotor D t = Returns () t' \<and> steady t t'
     \<and> w_tx t' = w_tx t @ map (Pair h) (stop_frames D)"
proof -
  let ?t' = "after_send D ''@S,3,0,*'' h (after_send D ''@S,2,0,*'' h
      (after_send D ''@S,1,0,*'' h (after_send D ''@S,0,0,*'' h t)))"
  have "stopAllMotor D t = Returns () ?t'" using assms by (rule stopAllMotor_eq)
  moreover have "steady t ?t'"
    by (blast intro: steady_trans after_send_steady(1))
  moreover have "w_tx ?t' = w_tx t @ map (Pair h) (stop_frames D)"
    by (simp add: after_send_steady stop_frames_def)
  ultimately show ?thesis by blast
qed

lemma iteration_Returns:
  assumes "iteration D k t = Returns u t'"
  shows "(if poll_ready k then poll_branch D k t else request_branch D k t) = Returns () t'
     \<and> \<not> overflow (clock_check k) (m_wdog t')"
  using assms
  by (auto simp: iteration_def next_do_def bind_def split: result.splits if_splits)

lemma unat_mod4: "unat (word_of_nat (n mod 4) :: 8 word) = n mod 4"
proof -
  have "n mod 4 < 256" by simp
  then show ?thesis by (simp add: unat_of_nat)
qed

lemma iteration_cnt:
  assumes "iteration D k t = Returns u t'" and "unat (m_cnt_motor t) < 4"
  shows "steady t t' \<and>
    unat (m_cnt_motor t') = (unat (m_cnt_motor t) + (if poll_ready k then 0 else 1)) mod 4"
proof (cases "poll_ready k")
  case True
  with iteration_Returns [OF assms(1)] have "poll_branch D k t = Returns () t'" by simp
  from poll_branch_Returns [OF this] assms(2) True show ?thesis by simp
next
  case False
  with iteration_Returns [OF assms(1)] have "request_branch D k t = Returns () t'" by simp
  from request_branch_Returns [OF this assms(2)] False show ?thesis by (simp add: unat_mod4)
qed

lemma main_loop_cnt:
  "main_loop D ks t = Returns u t' \<Longrightarrow> unat (m_cnt_motor t) < 4 \<Longrightarrow>
     steady t t' \<and>
     unat (m_cnt_motor t') = (unat (m_cnt_motor t) + length (filter (\<lambda>k. \<not> poll_ready k) ks)) mod 4"
proof (induction ks arbitrary: t)
  case Nil
  then show ?case by (simp add: steady_refl)
next
  case (Cons k ks)
  from Cons.prems(1) obtain t1 where 1: "iteration D k t = Returns () t1"
    and 2: "main_loop D ks t1 = Returns u t'"
    by (auto simp: next_do_def bind_def split: result.splits)
  note a = iteration_cnt [OF 1 Cons.prems(2)]
  then have lt: "unat (m_cnt_motor t1) < 4" by simp
  note b = Cons.IH [OF 2 lt]
  have "steady t t'" using a b by (blast intro: steady_trans)
  moreover have "unat (m_cnt_motor t') =
      (unat (m_cnt_motor t) + length (filter (\<lambda>k. \<not> poll_ready k) (k # ks))) mod 4"
    using a b by (simp add: mod_simps ac_simps)
  ultimately show ?case by blast
qed

section \<open>Runs without a byte from the device\<close>

lemma cnt_index: "unat (c :: 8 word) < 4 \<Longrightarrow>
   0 \<le> sint (ucast c :: 32 word) \<and> sint (ucast c :: 32 word) < int c_max_motors
   \<and> nat (sint (ucast c :: 32 word)) < c_max_motors"
  using cnt_cases [of c] by (auto simp: c_max_motors_def)

lemma request_branch_silent:
  assumes u: "m_uart t = Some h" and p: "m_parse t \<noteq> None" and l: "labels_resolve t"
    and c: "unat (m_cnt_motor t) < 4" and i: "inbox k = []"
  shows "\<exists>t'. request_branch D k t = Returns () t' \<and> m_last (m_wdog t') = clock_reset k"
proof -
  let ?cs = "read_text (ucast (m_cnt_motor t)) RPM"
  let ?t1 = "after_send D ?cs h t"
  have r1: "readParameterAMC D (ucast (m_cnt_motor t)) RPM t = Returns () ?t1"
    using read_text_cnt_fits [OF c] u by (simp add: readParameterAMC_eq)
  from p obtain q where q: "m_parse ?t1 = Some q" by (auto simp: after_send_steady)
  have c1: "m_cnt_motor ?t1 = m_cnt_motor t" by (simp add: after_send_steady)
  note ix = cnt_index [OF c]
  have "steady t ?t1" by (rule after_send_steady)
  then have "resolve (w_entities ?t1) (motor_elabels (m_args ?t1) (nat (sint (ucast (m_cnt_motor t) :: 32 word)))) \<noteq> None"
    using l ix by (simp add: labels_resolve_def steady_def)
  then obtain eid where e: "resolve (w_entities ?t1) (motor_elabels (m_args ?t1) (nat (sint (ucast (m_cnt_motor t) :: 32 word)))) = Some eid"
    by blast
  have "\<exists>t2. dispatchRpm (ucast (m_cnt_motor ?t1)) (motor_rpm D q (unat (m_cnt_motor ?t1))) ?t1 = Returns () t2"
    unfolding c1 using ix e by (simp add: dispatchRpm_def resolveEntity_def bind_def Let_def)
  then obtain t2 where r2: "dispatchRpm (ucast (m_cnt_motor ?t1)) (motor_rpm D q (unat (m_cnt_motor ?t1))) ?t1 = Returns () t2"
    by blast
  show ?thesis
    using r1 q r2 i
    by (simp add: request_branch_def next_do_def bind_def Let_def reset_def)
qed

lemma iteration_silent:
  assumes u: "m_uart t = Some h" and p: "m_parse t \<noteq> None" and l: "labels_resolve t"
    and c: "unat (m_cnt_motor t) < 4" and i: "inbox k = []" and r: "\<not> poll_ready k"
    and w: "clock_check k - clock_reset k \<le> m_top (m_wdog t)"
  shows "\<exists>t'. iteration D k t = Returns () t'"
proof -
  from request_branch_silent [OF u p l c i] obtain t1
    where 1: "request_branch D k t = Returns () t1" and 2: "m_last (m_wdog t1) = clock_reset k"
    by blast
  have "m_top (m_wdog t1) = m_top (m_wdog t)"
    using request_branch_Returns [OF 1 c] by (simp add: steady_def)
  then have "\<not> overflow (clock_check k) (m_wdog t1)"
    using w 2 by (simp add: overflow_def)
  then show ?thesis using 1 r by (simp add: iteration_def next_do_def bind_def)
qed

lemma steady_keeps:
  assumes "steady t t'"
  shows "m_uart t' = m_uart t" "m_parse t \<noteq> None \<Longrightarrow> m_parse t' \<noteq> None"
    "labels_resolve t \<Longrightarrow> labels_resolve t'" "m_top (m_wdog t') = m_top (m_wdog t)"
    "m_entity t' = m_entity t"
  using assms by (simp_all add: steady_def labels_resolve_def)

lemma main_loop_silent:
  "m_uart t = Some h \<Longrightarrow> m_parse t \<noteq> None \<Longrightarrow> labels_resolve t \<Longrightarrow>
   unat (m_cnt_motor t) < 4 \<Longrightarrow>
   \<forall>k \<in> set ks. \<not> poll_ready k \<and> inbox k = []
      \<and> clock_check k - clock_reset k \<le> m_top (m_wdog t) \<Longrightarrow>
   \<exists>t'. main_loop D ks t = Returns () t' \<and> steady t t'"
proof (induction ks arbitrary: t)
  case Nil
  then show ?case by (simp add: steady_refl)
next
  case (Cons k ks)
  have k: "\<not> poll_ready k" "inbox k = []" "clock_check k - clock_reset k \<le> m_top (m_wdog t)"
    using Cons.prems(5) by simp_all
  from iteration_silent [OF Cons.prems(1-4) k(2) k(1) k(3)] obtain t1
    where 1: "iteration D k t = Returns () t1" by blast
  note a = iteration_cnt [OF 1 Cons.prems(4)]
  then have s: "steady t t1" and c1: "unat (m_cnt_motor t1) < 4" by simp_all
  have rest: "\<forall>k \<in> set ks. \<not> poll_ready k \<and> inbox k = []
      \<and> clock_check k - clock_reset k \<le> m_top (m_wdog t1)"
    using Cons.prems(5) steady_keeps(4) [OF s] by simp
  have u1: "m_uart t1 = Some h" using steady_keeps(1) [OF s] Cons.prems(1) by simp
  from Cons.IH [OF u1 steady_keeps(2) [OF s Cons.prems(2)] steady_keeps(3) [OF s Cons.prems(3)] c1 rest]
  obtain t' where 2: "main_loop D ks t1 = Returns () t'" and s': "steady t1 t'" by blast
  have "main_loop D (k # ks) t = Returns () t'" using 1 2 by (simp add: next_do_def bind_def)
  then show ?case using steady_trans [OF s s'] by blast
qed

lemma onMain_silent:
  assumes u: "m_uart t = Some h" and p: "m_parse t \<noteq> None" and l: "labels_resolve t"
    and q: "\<forall>k \<in> set ks. \<not> poll_ready k \<and> inbox k = []
      \<and> clock_check k - clock_reset k \<le> m_top (m_wdog t)"
  shows "\<exists>t'. onMain D ks t = Returns () t' \<and> getState (m_entity t') = ESTA_NORMAL"
proof -
  define t2 where "t2 = (setEntityState ESTA_NORMAL (CODE_ACTIVE D) t)\<lparr>m_cnt_motor := 0\<rparr>"
  have t2: "m_uart t2 = Some h" "m_parse t2 \<noteq> None" "labels_resolve t2"
    "unat (m_cnt_motor t2) < 4" "m_top (m_wdog t2) = m_top (m_wdog t)"
    "getState (m_entity t2) = ESTA_NORMAL"
    using u p l by (simp_all add: t2_def setEntityState_def labels_resolve_def getState_def setState_state)
  have q2: "\<forall>k \<in> set ks. \<not> poll_ready k \<and> inbox k = []
      \<and> clock_check k - clock_reset k \<le> m_top (m_wdog t2)"
    using q t2(5) by simp
  from main_loop_silent [OF t2(1-4) q2] obtain t3
    where 3: "main_loop D ks t2 = Returns () t3" and s3: "steady t2 t3" by blast
  have u3: "m_uart t3 = Some h" using steady_keeps(1) [OF s3] t2(1) by simp
  from stopAllMotor_tx [OF u3] obtain t4
    where 4: "stopAllMotor D t3 = Returns () t4" and s4: "steady t3 t4" by blast
  have "onMain D ks t = Returns () t4"
    using 3 4 by (simp add: onMain_def Let_def t2_def next_do_def bind_def)
  moreover have "getState (m_entity t4) = ESTA_NORMAL"
    using steady_keeps(5) [OF s3] steady_keeps(5) [OF s4] t2(6) by (simp add: getState_def)
  ultimately show ?thesis by blast
qed

section \<open>The watchdog\<close>

lemma request_branch_reset:
  "request_branch D k t = Returns u t' \<Longrightarrow> m_last (m_wdog t') = clock_reset k"
  by (auto simp: request_branch_def next_do_def bind_def Let_def reset_def
      split: result.splits option.splits if_splits)

lemma poll_branch_reset:
  "poll_branch D k t = Returns u t' \<Longrightarrow> m_last (m_wdog t') = clock_reset k"
  by (auto simp: poll_branch_def next_do_def bind_def reset_def split: result.splits)

lemma setRPM_float_no_throw: "setRPM_float D motor v t \<noteq> Throws e s"
  by (simp add: setRPM_float_def setRPM_eq split: option.splits)

lemma consume_no_throw: "consume D msg t \<noteq> Throws e s"
  by (auto simp: consume_def next_do_def bind_def setRPM_float_no_throw split: result.splits)

lemma next_do_Throws:
  "next_do m f = Throws e s \<Longrightarrow> m = Throws e s \<or> (\<exists>a s1. m = Returns a s1 \<and> f s1 = Throws e s)"
  by (auto simp: next_do_def bind_def split: result.splits)

lemma waitForMessages_no_throw: "waitForMessages D msgs t \<noteq> Throws e s"
proof (induction msgs arbitrary: t)
  case Nil
  show ?case by simp
next
  case (Cons msg msgs)
  show ?case
  proof
    assume "waitForMessages D (msg # msgs) t = Throws e s"
    then have "next_do (consume D msg t) (waitForMessages D msgs) = Throws e s" by simp
    from next_do_Throws [OF this] show False
      using consume_no_throw [of D msg t e s] Cons.IH by blast
  qed
qed

lemma dispatchRpm_throws:
  "dispatchRpm i rpm t = Throws e s \<Longrightarrow> \<exists>label. e = NonexistentLabel label"
  by (auto simp: dispatchRpm_def resolveEntity_def bind_def Let_def split: option.splits if_splits)

lemma readParameterAMC_no_throw: "readParameterAMC D motor f t \<noteq> Throws e s"
  by (simp add: readParameterAMC_eq split: option.splits)

lemma request_branch_throws:
  assumes "request_branch D k t = Throws e s"
  shows "\<exists>label. e = NonexistentLabel label"
proof -
  from next_do_Throws [OF assms [unfolded request_branch_def]] readParameterAMC_no_throw
  obtain a t1 where
    1: "(case m_parse t1 of
           None \<Rightarrow> Undefined NullPointer
         | Some p \<Rightarrow>
             next_do (dispatchRpm (ucast (m_cnt_motor t1))
                        (motor_rpm D p (unat (m_cnt_motor t1))) t1)
               (\<lambda>t2. (let t3 = t2\<lparr>m_cnt_motor := m_cnt_motor t2 + 1\<rparr>;
                           t4 = (if m_cnt_motor t3 \<ge> 4 then t3\<lparr>m_cnt_motor := 0\<rparr> else t3)
                       in next_do (waitForMessages D (inbox k) t4)
                            (\<lambda>t5. Returns ()
                               (t5\<lparr>m_wdog := reset (clock_reset k) (m_wdog t5)\<rparr>))))) = Throws e s"
    by blast
  then obtain p where
    2: "next_do (dispatchRpm (ucast (m_cnt_motor t1)) (motor_rpm D p (unat (m_cnt_motor t1))) t1)
          (\<lambda>t2. (let t3 = t2\<lparr>m_cnt_motor := m_cnt_motor t2 + 1\<rparr>;
                      t4 = (if m_cnt_motor t3 \<ge> 4 then t3\<lparr>m_cnt_motor := 0\<rparr> else t3)
                  in next_do (waitForMessages D (inbox k) t4)
                       (\<lambda>t5. Returns ()
                          (t5\<lparr>m_wdog := reset (clock_reset k) (m_wdog t5)\<rparr>)))) = Throws e s"
    by (auto split: option.splits)
  from next_do_Throws [OF 2] show ?thesis
  proof
    assume "dispatchRpm (ucast (m_cnt_motor t1)) (motor_rpm D p (unat (m_cnt_motor t1))) t1 = Throws e s"
    then show ?thesis by (rule dispatchRpm_throws)
  next
    assume "\<exists>a s1. dispatchRpm (ucast (m_cnt_motor t1)) (motor_rpm D p (unat (m_cnt_motor t1))) t1
                = Returns a s1 \<and>
              (let t3 = s1\<lparr>m_cnt_motor := m_cnt_motor s1 + 1\<rparr>;
                   t4 = (if m_cnt_motor t3 \<ge> 4 then t3\<lparr>m_cnt_motor := 0\<rparr> else t3)
               in next_do (waitForMessages D (inbox k) t4)
                    (\<lambda>t5. Returns () (t5\<lparr>m_wdog := reset (clock_reset k) (m_wdog t5)\<rparr>)))
                = Throws e s"
    then obtain t4 where
      "next_do (waitForMessages D (inbox k) t4)
         (\<lambda>t5. Returns () (t5\<lparr>m_wdog := reset (clock_reset k) (m_wdog t5)\<rparr>)) = Throws e s"
      by (auto simp: Let_def)
    from next_do_Throws [OF this] waitForMessages_no_throw show ?thesis by blast
  qed
qed

lemma poll_branch_no_throw: "poll_branch D k t \<noteq> Throws e s"
  by (auto simp: poll_branch_def checkSerialPort_def next_do_def bind_def Let_def
      split: result.splits option.splits if_splits rx.splits)

text \<open>
  A restart is raised only by the watchdog test, with the state set to Error, and only
  when more than the top has passed since the reset made earlier in the same iteration.
\<close>

lemma iteration_restart:
  assumes thr: "iteration D k t = Throws (RestartNeeded reason delay flag) t'"
    and cnt: "unat (m_cnt_motor t) < 4"
  shows "reason = ''Watchdog Overflow'' \<and> delay = 2 \<and> \<not> flag
    \<and> getState (m_entity t') = ESTA_ERROR
    \<and> clock_check k - clock_reset k > m_top (m_wdog t)"
proof -
  let ?b = "if poll_ready k then poll_branch D k t else request_branch D k t"
  have nothrow: "?b \<noteq> Throws (RestartNeeded reason delay flag) s" for s
    using poll_branch_no_throw request_branch_throws by (cases "poll_ready k") fastforce+
  from thr nothrow obtain t1 where b: "?b = Returns () t1"
    and ov: "overflow (clock_check k) (m_wdog t1)"
    and e: "reason = ''Watchdog Overflow''" "delay = 2" "\<not> flag"
    and t': "t' = setEntityStateMsg ESTA_ERROR ''Watchdog Overflow'' t1"
    by (auto simp: iteration_def next_do_def bind_def split: result.splits if_splits)
  have "m_last (m_wdog t1) = clock_reset k \<and> m_top (m_wdog t1) = m_top (m_wdog t)"
  proof (cases "poll_ready k")
    case True
    with b have "poll_branch D k t = Returns () t1" by simp
    then show ?thesis using poll_branch_reset poll_branch_Returns by (fastforce simp: steady_def)
  next
    case False
    with b have "request_branch D k t = Returns () t1" by simp
    then show ?thesis
      using request_branch_reset request_branch_Returns [OF _ cnt] by (fastforce simp: steady_def)
  qed
  then have "clock_check k - clock_reset k > m_top (m_wdog t)"
    using ov by (simp add: overflow_def)
  moreover have "getState (m_entity t') = ESTA_ERROR"
    by (simp add: t' setEntityStateMsg_def getState_def setStateMsg_state)
  ultimately show ?thesis using e by simp
qed

lemma AMC_onResourceInitialization_top:
  "AMC_onResourceInitialization D xs t = Returns u t' \<Longrightarrow> m_top (m_wdog t') = 10"
  by (auto simp: AMC_onResourceInitialization_def Let_def next_do_def bind_def setTop_def
      split: option.splits result.splits)

lemma amc_main_ready:
  "m_uart amc_main = Some 1" "m_parse amc_main \<noteq> None" "labels_resolve amc_main"
  "m_top (m_wdog amc_main) = 10" "m_last (m_wdog amc_main) = 0" "unat (m_cnt_motor amc_main) < 4"
  by (simp_all add: amc_main_def amc0_def labels_resolve_def resolve_def)

lemma silent_tick_simps:
  "\<not> poll_ready (silent_tick i)" "inbox (silent_tick i) = []"
  "clock_check (silent_tick i) - clock_reset (silent_tick i) = 0"
  by (simp_all add: silent_tick_def)

text \<open>
  C1 fails on the code: the loop resets the watchdog in the branch without readiness too,
  so the test \<^verbatim>\<open>m_wdog.overflow()\<close> always follows a reset of the same iteration. In a
  run of ten iterations in which no byte arrives, 15 seconds pass, more than the top of
  10 seconds, and \<^verbatim>\<open>onMain\<close> still returns normally with the entity state Normal: no
  Error state, no restart.
\<close>

theorem silence_raises_no_restart:
  "clock_check (silent_tick 9) - m_last (m_wdog amc_main) > m_top (m_wdog amc_main)
   \<and> (\<exists>t'. onMain D0 (map silent_tick [0 ..< 10]) amc_main = Returns () t'
         \<and> getState (m_entity t') = ESTA_NORMAL)"
proof -
  have "clock_check (silent_tick 9) - m_last (m_wdog amc_main) > m_top (m_wdog amc_main)"
    by (simp add: amc_main_ready silent_tick_def)
  moreover have "\<forall>k \<in> set (map silent_tick [0 ..< 10]). \<not> poll_ready k \<and> inbox k = []
      \<and> clock_check k - clock_reset k \<le> m_top (m_wdog amc_main)"
    by (simp add: silent_tick_simps amc_main_ready del: upt.simps)
  ultimately show ?thesis
    using onMain_silent [OF amc_main_ready(1-3), of "map silent_tick [0 ..< 10]" D0] by blast
qed

section \<open>Round-robin polling\<close>

lemma read_text_is_read: "is_read_request (bytes (read_text motor f))"
  by (simp add: is_read_request_def read_text_def bytes_def)

lemma one_read_request:
  assumes "w_tx t' = w_tx t @ map (Pair h) (spec_frame D (read_text motor f)) @ rest"
    and "\<forall>e \<in> set rest. \<not> is_read_request (snd e)"
  shows "length (filter (\<lambda>e. is_read_request (snd e)) (drop (length (w_tx t)) (w_tx t'))) = 1"
proof -
  have "filter (\<lambda>e. is_read_request (snd e)) rest = []"
    using assms(2) by (simp add: filter_empty_conv)
  moreover have "\<not> is_read_request [c]" for c :: "8 word"
    by (simp add: is_read_request_def bytes_def)
  ultimately show ?thesis
    using read_text_is_read [of motor f] by (simp add: assms(1) spec_frame_def)
qed

lemma onMain_Returns:
  assumes "onMain D ks t = Returns u t'"
  shows "\<exists>t1. main_loop D ks ((setEntityState ESTA_NORMAL (CODE_ACTIVE D) t)\<lparr>m_cnt_motor := 0\<rparr>)
            = Returns () t1
          \<and> stopAllMotor D t1 = Returns () t'"
  using assms by (auto simp: onMain_def Let_def next_do_def bind_def split: result.splits)

lemma stopAllMotor_Returns:
  assumes "stopAllMotor D t = Returns u t'"
  shows "\<exists>h. m_uart t = Some h \<and> steady t t' \<and> m_cnt_motor t' = m_cnt_motor t
     \<and> w_tx t' = w_tx t @ map (Pair h) (stop_frames D)"
proof -
  from assms obtain n t1 where "setRPM D 0 0 t = Returns n t1"
    by (auto simp: stopAllMotor_def next_do_def bind_def split: result.splits)
  from setRPM_Returns [OF this] obtain h where h: "m_uart t = Some h" by blast
  have "stopAllMotor D t = Returns ()
     (after_send D ''@S,3,0,*'' h (after_send D ''@S,2,0,*'' h
      (after_send D ''@S,1,0,*'' h (after_send D ''@S,0,0,*'' h t))))"
    using h by (rule stopAllMotor_eq)
  with assms have "t' = after_send D ''@S,3,0,*'' h (after_send D ''@S,2,0,*'' h
      (after_send D ''@S,1,0,*'' h (after_send D ''@S,0,0,*'' h t)))" by simp
  moreover from stopAllMotor_tx [OF h, of D] assms
  have "steady t t' \<and> w_tx t' = w_tx t @ map (Pair h) (stop_frames D)" by simp
  ultimately show ?thesis using h by (simp add: after_send_steady)
qed

lemma dispatchRpm_throws_state: "dispatchRpm i rpm t = Throws e s \<Longrightarrow> s = t"
  by (auto simp: dispatchRpm_def resolveEntity_def bind_def Let_def split: option.splits if_splits)

lemma readParameterAMC_Returns:
  "readParameterAMC D motor f t = Returns a t1 \<Longrightarrow> m_cnt_motor t1 = m_cnt_motor t"
  by (auto simp: readParameterAMC_eq after_send_steady split: option.splits if_splits)

lemma request_branch_throws_cnt:
  assumes "request_branch D k t = Throws e s"
  shows "m_cnt_motor s = m_cnt_motor t"
proof -
  from next_do_Throws [OF assms [unfolded request_branch_def]] readParameterAMC_no_throw
  obtain a t1 where 0: "readParameterAMC D (ucast (m_cnt_motor t)) RPM t = Returns a t1" and
    1: "(case m_parse t1 of
           None \<Rightarrow> Undefined NullPointer
         | Some p \<Rightarrow>
             next_do (dispatchRpm (ucast (m_cnt_motor t1))
                        (motor_rpm D p (unat (m_cnt_motor t1))) t1)
               (\<lambda>t2. (let t3 = t2\<lparr>m_cnt_motor := m_cnt_motor t2 + 1\<rparr>;
                           t4 = (if m_cnt_motor t3 \<ge> 4 then t3\<lparr>m_cnt_motor := 0\<rparr> else t3)
                       in next_do (waitForMessages D (inbox k) t4)
                            (\<lambda>t5. Returns ()
                               (t5\<lparr>m_wdog := reset (clock_reset k) (m_wdog t5)\<rparr>))))) = Throws e s"
    by blast
  then obtain p where
    2: "next_do (dispatchRpm (ucast (m_cnt_motor t1)) (motor_rpm D p (unat (m_cnt_motor t1))) t1)
          (\<lambda>t2. (let t3 = t2\<lparr>m_cnt_motor := m_cnt_motor t2 + 1\<rparr>;
                      t4 = (if m_cnt_motor t3 \<ge> 4 then t3\<lparr>m_cnt_motor := 0\<rparr> else t3)
                  in next_do (waitForMessages D (inbox k) t4)
                       (\<lambda>t5. Returns ()
                          (t5\<lparr>m_wdog := reset (clock_reset k) (m_wdog t5)\<rparr>)))) = Throws e s"
    by (auto split: option.splits)
  from next_do_Throws [OF 2] show ?thesis
  proof
    assume "dispatchRpm (ucast (m_cnt_motor t1)) (motor_rpm D p (unat (m_cnt_motor t1))) t1 = Throws e s"
    then have "s = t1" by (rule dispatchRpm_throws_state)
    then show ?thesis using readParameterAMC_Returns [OF 0] by simp
  next
    assume "\<exists>a s1. dispatchRpm (ucast (m_cnt_motor t1)) (motor_rpm D p (unat (m_cnt_motor t1))) t1
                = Returns a s1 \<and>
              (let t3 = s1\<lparr>m_cnt_motor := m_cnt_motor s1 + 1\<rparr>;
                   t4 = (if m_cnt_motor t3 \<ge> 4 then t3\<lparr>m_cnt_motor := 0\<rparr> else t3)
               in next_do (waitForMessages D (inbox k) t4)
                    (\<lambda>t5. Returns () (t5\<lparr>m_wdog := reset (clock_reset k) (m_wdog t5)\<rparr>)))
                = Throws e s"
    then obtain t4 where
      "next_do (waitForMessages D (inbox k) t4)
         (\<lambda>t5. Returns () (t5\<lparr>m_wdog := reset (clock_reset k) (m_wdog t5)\<rparr>)) = Throws e s"
      by (auto simp: Let_def)
    from next_do_Throws [OF this] waitForMessages_no_throw show ?thesis by blast
  qed
qed

lemma iteration_throws_cnt:
  assumes thr: "iteration D k t = Throws e s" and cnt: "unat (m_cnt_motor t) < 4"
  shows "unat (m_cnt_motor s) < 4"
proof -
  let ?b = "if poll_ready k then poll_branch D k t else request_branch D k t"
  from next_do_Throws [OF thr [unfolded iteration_def]]
  consider (branch) "?b = Throws e s"
    | (wdog) a t1 where "?b = Returns a t1"
        "s = setEntityStateMsg ESTA_ERROR ''Watchdog Overflow'' t1"
    by (auto split: if_splits)
  then show ?thesis
  proof cases
    case branch
    then have "request_branch D k t = Throws e s"
      by (cases "poll_ready k") (auto simp: poll_branch_no_throw)
    from request_branch_throws_cnt [OF this] cnt show ?thesis by simp
  next
    case wdog
    have "unat (m_cnt_motor t1) < 4"
    proof (cases "poll_ready k")
      case True
      with wdog(1) have "poll_branch D k t = Returns a t1" by simp
      from poll_branch_Returns [OF this] cnt show ?thesis by simp
    next
      case False
      with wdog(1) have "request_branch D k t = Returns a t1" by simp
      from request_branch_Returns [OF this cnt] show ?thesis by (simp add: unat_mod4)
    qed
    then show ?thesis by (simp add: wdog(2) setEntityStateMsg_def)
  qed
qed

lemma main_loop_throws_cnt:
  "main_loop D ks t = Throws e s \<Longrightarrow> unat (m_cnt_motor t) < 4 \<Longrightarrow> unat (m_cnt_motor s) < 4"
proof (induction ks arbitrary: t)
  case Nil
  then show ?case by simp
next
  case (Cons k ks)
  from Cons.prems(1) have "next_do (iteration D k t) (main_loop D ks) = Throws e s" by simp
  from next_do_Throws [OF this] show ?case
  proof
    assume "iteration D k t = Throws e s"
    then show ?thesis using Cons.prems(2) by (rule iteration_throws_cnt)
  next
    assume "\<exists>a s1. iteration D k t = Returns a s1 \<and> main_loop D ks s1 = Throws e s"
    then obtain a s1 where 1: "iteration D k t = Returns a s1"
      and 2: "main_loop D ks s1 = Throws e s" by blast
    from iteration_cnt [OF 1 Cons.prems(2)] have "unat (m_cnt_motor s1) < 4" by simp
    from Cons.IH [OF 2 this] show ?thesis .
  qed
qed

lemma byte_tick_iteration:
  "\<exists>t'. iteration D0 byte_tick amc_main = Returns () t'"
  by (simp add: iteration_def poll_branch_def checkSerialPort_def amc_main_def amc0_def
      byte_tick_def next_do_def bind_def reset_def overflow_def Let_def)

lemma stalled_tick_poll:
  "poll_branch D0 stalled_tick amc_main = Returns () (amc_main\<lparr>m_wdog := \<lparr>m_top = 10, m_last = 1\<rparr>\<rparr>)"
  by (simp add: poll_branch_def checkSerialPort_def amc_main_def amc0_def
      stalled_tick_def next_do_def bind_def reset_def)

lemma stalled_tick_iteration:
  "iteration D0 stalled_tick amc_main =
     Throws (RestartNeeded ''Watchdog Overflow'' 2 False)
       (setEntityStateMsg ESTA_ERROR ''Watchdog Overflow''
          (amc_main\<lparr>m_wdog := \<lparr>m_top = 10, m_last = 1\<rparr>\<rparr>))"
proof -
  have p: "poll_ready stalled_tick" "clock_check stalled_tick = 12"
    by (simp_all add: stalled_tick_def)
  show ?thesis
    unfolding iteration_def using p
    by (simp add: stalled_tick_poll next_do_def bind_def overflow_def)
qed

text \<open>
  C8: the motor counter, which \<^verbatim>\<open>onMain\<close> sets to 0 before the loop, is below 4 after
  every iteration, and equals the number of iterations so far in which the multiplexer
  reported no readiness, modulo 4; it still does when \<^verbatim>\<open>onMain\<close> returns. An iteration
  without readiness that runs to its end writes the read request for the rpm of the motor
  the counter names, with its checksum byte, and no other read request, and leaves the
  counter advanced by one modulo 4. An iteration with readiness writes nothing and leaves
  the counter. The counter is below 4 also in the state in which an exception leaves the
  loop.
\<close>

theorem round_robin_polling:
  "(\<forall>t'. onMain D ks t0 = Returns () t' \<longrightarrow>
       unat (m_cnt_motor t') = length (filter (\<lambda>k. \<not> poll_ready k) ks) mod 4)
   \<and> (unat (m_cnt_motor t) < 4 \<longrightarrow>
       (\<forall>t'. main_loop D ks t = Returns () t' \<longrightarrow>
          unat (m_cnt_motor t') < 4
          \<and> unat (m_cnt_motor t') =
              (unat (m_cnt_motor t) + length (filter (\<lambda>k. \<not> poll_ready k) ks)) mod 4)
       \<and> (\<forall>e t'. main_loop D ks t = Throws e t' \<longrightarrow> unat (m_cnt_motor t') < 4)
       \<and> (\<forall>t'. \<not> poll_ready k \<and> iteration D k t = Returns () t' \<longrightarrow>
            (\<exists>h rest. m_uart t = Some h
               \<and> w_tx t' = w_tx t
                    @ [(h, bytes (read_text (ucast (m_cnt_motor t)) RPM)),
                       (h, [crc_putArray D c_poly
                              (bytes (butlast (read_text (ucast (m_cnt_motor t)) RPM)))])]
                    @ rest
               \<and> (\<forall>e \<in> set rest. \<not> is_read_request (snd e)))
            \<and> length (filter (\<lambda>e. is_read_request (snd e))
                        (drop (length (w_tx t)) (w_tx t'))) = 1
            \<and> unat (m_cnt_motor t') = (unat (m_cnt_motor t) + 1) mod 4)
       \<and> (\<forall>t'. poll_ready k \<and> iteration D k t = Returns () t' \<longrightarrow>
            w_tx t' = w_tx t \<and> m_cnt_motor t' = m_cnt_motor t))"
proof -
  have A: "unat (m_cnt_motor t') = length (filter (\<lambda>k. \<not> poll_ready k) ks) mod 4"
    if "onMain D ks t0 = Returns () t'" for t'
  proof -
    let ?t2 = "(setEntityState ESTA_NORMAL (CODE_ACTIVE D) t0)\<lparr>m_cnt_motor := 0\<rparr>"
    from onMain_Returns [OF that] obtain t1 where 1: "main_loop D ks ?t2 = Returns () t1"
      and 2: "stopAllMotor D t1 = Returns () t'" by blast
    have "unat (m_cnt_motor ?t2) < 4" by simp
    from main_loop_cnt [OF 1 this] stopAllMotor_Returns [OF 2] show ?thesis by auto
  qed
  have B: "unat (m_cnt_motor t') < 4
          \<and> unat (m_cnt_motor t') =
              (unat (m_cnt_motor t) + length (filter (\<lambda>k. \<not> poll_ready k) ks)) mod 4"
    if "unat (m_cnt_motor t) < 4" "main_loop D ks t = Returns () t'" for t'
    using main_loop_cnt [OF that(2) that(1)] by simp
  have B': "unat (m_cnt_motor t') < 4"
    if "unat (m_cnt_motor t) < 4" "main_loop D ks t = Throws e t'" for e t'
    using main_loop_throws_cnt [OF that(2) that(1)] .
  have C: "(\<exists>h rest. m_uart t = Some h
               \<and> w_tx t' = w_tx t
                    @ [(h, bytes (read_text (ucast (m_cnt_motor t)) RPM)),
                       (h, [crc_putArray D c_poly
                              (bytes (butlast (read_text (ucast (m_cnt_motor t)) RPM)))])]
                    @ rest
               \<and> (\<forall>e \<in> set rest. \<not> is_read_request (snd e)))
            \<and> length (filter (\<lambda>e. is_read_request (snd e))
                        (drop (length (w_tx t)) (w_tx t'))) = 1
            \<and> unat (m_cnt_motor t') = (unat (m_cnt_motor t) + 1) mod 4"
    if c: "unat (m_cnt_motor t) < 4" and r: "\<not> poll_ready k" "iteration D k t = Returns () t'" for t'
  proof -
    from iteration_Returns [OF r(2)] r(1) have "request_branch D k t = Returns () t'" by simp
    from request_branch_Returns [OF this c] obtain h rest where h: "m_uart t = Some h"
      and tx: "w_tx t' = w_tx t @ map (Pair h) (spec_frame D (read_text (ucast (m_cnt_motor t)) RPM)) @ rest"
      and nr: "\<forall>e \<in> set rest. \<not> is_read_request (snd e)"
      and cnt: "m_cnt_motor t' = word_of_nat ((unat (m_cnt_motor t) + 1) mod 4)"
      by blast
    have "unat (m_cnt_motor t') = (unat (m_cnt_motor t) + 1) mod 4"
      unfolding cnt by (rule unat_mod4)
    moreover note one_read_request [OF tx nr]
    moreover have "w_tx t' = w_tx t
                    @ [(h, bytes (read_text (ucast (m_cnt_motor t)) RPM)),
                       (h, [crc_putArray D c_poly
                              (bytes (butlast (read_text (ucast (m_cnt_motor t)) RPM)))])]
                    @ rest"
      using tx by (simp add: spec_frame_def)
    ultimately show ?thesis using h nr by blast
  qed
  have E: "w_tx t' = w_tx t \<and> m_cnt_motor t' = m_cnt_motor t"
    if "poll_ready k" "iteration D k t = Returns () t'" for t'
  proof -
    from iteration_Returns [OF that(2)] that(1) have "poll_branch D k t = Returns () t'" by simp
    from poll_branch_Returns [OF this] show ?thesis by simp
  qed
  show ?thesis using A B B' C E by blast
qed

theorem round_robin_polling_witness:
  "unat (m_cnt_motor amc_main) < 4 \<and> \<not> poll_ready (silent_tick 0)
   \<and> (\<exists>t'. iteration D0 (silent_tick 0) amc_main = Returns () t'
        \<and> unat (m_cnt_motor t') = 1
        \<and> length (filter (\<lambda>e. is_read_request (snd e))
                    (drop (length (w_tx amc_main)) (w_tx t'))) = 1)
   \<and> poll_ready byte_tick
   \<and> (\<exists>t'. iteration D0 byte_tick amc_main = Returns () t'
        \<and> w_tx t' = w_tx amc_main \<and> m_cnt_motor t' = m_cnt_motor amc_main)
   \<and> (\<exists>t'. onMain D0 [silent_tick 0, silent_tick 1, silent_tick 2] amc_main = Returns () t'
        \<and> unat (m_cnt_motor t') = 3)
   \<and> (\<exists>e s. main_loop D0 [stalled_tick] amc_main = Throws e s \<and> unat (m_cnt_motor s) < 4)"
proof -
  have c: "unat (m_cnt_motor amc_main) < 4" by (rule amc_main_ready)
  have b: "poll_ready byte_tick" by (simp add: byte_tick_def)
  from byte_tick_iteration obtain t'' where t'': "iteration D0 byte_tick amc_main = Returns () t''"
    by blast
  from round_robin_polling [of D0 "[]" amc0 amc_main byte_tick] c b t''
  have bb: "w_tx t'' = w_tx amc_main \<and> m_cnt_motor t'' = m_cnt_motor amc_main"
    by blast
  have r: "\<not> poll_ready (silent_tick 0)" by (rule silent_tick_simps)
  have w: "clock_check (silent_tick 0) - clock_reset (silent_tick 0) \<le> m_top (m_wdog amc_main)"
    by (simp add: silent_tick_simps amc_main_ready)
  from iteration_silent [OF amc_main_ready(1-3) c silent_tick_simps(2) r w]
  obtain t' where t': "iteration D0 (silent_tick 0) amc_main = Returns () t'" by blast
  have z: "unat (m_cnt_motor amc_main) = 0" by (simp add: amc_main_def amc0_def)
  from round_robin_polling [of D0 "[]" amc0 amc_main "silent_tick 0"] c r t'
  have one: "length (filter (\<lambda>e. is_read_request (snd e))
                    (drop (length (w_tx amc_main)) (w_tx t'))) = 1
        \<and> unat (m_cnt_motor t') = (unat (m_cnt_motor amc_main) + 1) mod 4"
    by blast
  have q: "\<forall>k \<in> set [silent_tick 0, silent_tick 1, silent_tick 2]. \<not> poll_ready k \<and> inbox k = []
      \<and> clock_check k - clock_reset k \<le> m_top (m_wdog amc_main)"
    by (simp add: silent_tick_simps amc_main_ready)
  from onMain_silent [OF amc_main_ready(1-3) q, of D0] obtain t3
    where t3: "onMain D0 [silent_tick 0, silent_tick 1, silent_tick 2] amc_main = Returns () t3"
    by blast
  from round_robin_polling [of D0 "[silent_tick 0, silent_tick 1, silent_tick 2]" amc_main] t3
  have "unat (m_cnt_motor t3) =
      length (filter (\<lambda>k. \<not> poll_ready k) [silent_tick 0, silent_tick 1, silent_tick 2]) mod 4"
    by blast
  then have three: "unat (m_cnt_motor t3) = 3"
    by (simp add: silent_tick_simps)
  define s where "s = setEntityStateMsg ESTA_ERROR ''Watchdog Overflow''
          (amc_main\<lparr>m_wdog := \<lparr>m_top = 10, m_last = 1\<rparr>\<rparr>)"
  have s: "main_loop D0 [stalled_tick] amc_main = Throws (RestartNeeded ''Watchdog Overflow'' 2 False) s"
    by (simp add: stalled_tick_iteration next_do_def bind_def s_def)
  from round_robin_polling [of D0 "[stalled_tick]" amc0 amc_main byte_tick] c s
  have thr: "unat (m_cnt_motor s) < 4" by blast
  have 1: "\<exists>t'. iteration D0 (silent_tick 0) amc_main = Returns () t'
        \<and> unat (m_cnt_motor t') = 1
        \<and> length (filter (\<lambda>e. is_read_request (snd e))
                    (drop (length (w_tx amc_main)) (w_tx t'))) = 1"
    using t' one z by auto
  have 2: "\<exists>t'. iteration D0 byte_tick amc_main = Returns () t'
        \<and> w_tx t' = w_tx amc_main \<and> m_cnt_motor t' = m_cnt_motor amc_main"
    using t'' bb by blast
  have 3: "\<exists>t'. onMain D0 [silent_tick 0, silent_tick 1, silent_tick 2] amc_main = Returns () t'
        \<and> unat (m_cnt_motor t') = 3"
    using t3 three by blast
  have 4: "\<exists>e s. main_loop D0 [stalled_tick] amc_main = Throws e s \<and> unat (m_cnt_motor s) < 4"
    using s thr by blast
  show ?thesis using c r b 1 2 3 4 by blast
qed

section \<open>Stopping the motors; frames that do not fit\<close>

lemma stop_frames_eq:
  "map (Pair h) (stop_frames D) =
     [(h, bytes ''@S,0,0,*''), (h, [crc_putArray D c_poly (bytes ''@S,0,0,'')]),
      (h, bytes ''@S,1,0,*''), (h, [crc_putArray D c_poly (bytes ''@S,1,0,'')]),
      (h, bytes ''@S,2,0,*''), (h, [crc_putArray D c_poly (bytes ''@S,2,0,'')]),
      (h, bytes ''@S,3,0,*''), (h, [crc_putArray D c_poly (bytes ''@S,3,0,'')])]"
  by (simp add: stop_frames_def spec_frame_def)

text \<open>
  C10: when the loop of \<^verbatim>\<open>onMain\<close> ends because a stop was requested, \<^verbatim>\<open>onMain\<close>
  returns, and the last writes to the port before it returns are those of
  \<^verbatim>\<open>stopAllMotor\<close>: for each of the motors 0, 1, 2 and 3 in turn the command
  \<^verbatim>\<open>@S,<motor>,0,*\<close> and then its checksum byte.
\<close>

theorem stop_request_stops_all_motors:
  assumes "m_uart t = Some h"
    and "main_loop D ks ((setEntityState ESTA_NORMAL (CODE_ACTIVE D) t)\<lparr>m_cnt_motor := 0\<rparr>)
           = Returns () t1"
  shows "\<exists>t'. onMain D ks t = Returns () t'
     \<and> w_tx t' = w_tx t1 @
         [(h, bytes ''@S,0,0,*''), (h, [crc_putArray D c_poly (bytes ''@S,0,0,'')]),
          (h, bytes ''@S,1,0,*''), (h, [crc_putArray D c_poly (bytes ''@S,1,0,'')]),
          (h, bytes ''@S,2,0,*''), (h, [crc_putArray D c_poly (bytes ''@S,2,0,'')]),
          (h, bytes ''@S,3,0,*''), (h, [crc_putArray D c_poly (bytes ''@S,3,0,'')])]"
proof -
  let ?t2 = "(setEntityState ESTA_NORMAL (CODE_ACTIVE D) t)\<lparr>m_cnt_motor := 0\<rparr>"
  have "unat (m_cnt_motor ?t2) < 4" by simp
  from main_loop_cnt [OF assms(2) this] have "steady ?t2 t1" by simp
  then have "m_uart t1 = Some h"
    using assms(1) by (simp add: steady_def setEntityState_def)
  from stopAllMotor_tx [OF this, of D] obtain t'
    where 1: "stopAllMotor D t1 = Returns () t'"
      and 2: "w_tx t' = w_tx t1 @ map (Pair h) (stop_frames D)" by blast
  have "onMain D ks t = Returns () t'"
    using assms(2) 1 by (simp add: onMain_def Let_def next_do_def bind_def)
  then show ?thesis using 2 unfolding stop_frames_eq by blast
qed

theorem stop_request_stops_all_motors_witness:
  "m_uart amc_main = Some 1
   \<and> (\<exists>t1 t'. main_loop D0 [silent_tick 0, silent_tick 1]
                 ((setEntityState ESTA_NORMAL (CODE_ACTIVE D0) amc_main)\<lparr>m_cnt_motor := 0\<rparr>)
                 = Returns () t1
        \<and> onMain D0 [silent_tick 0, silent_tick 1] amc_main = Returns () t'
        \<and> drop (length (w_tx t1)) (w_tx t') =
            [(1, bytes ''@S,0,0,*''), (1, [crc_putArray D0 c_poly (bytes ''@S,0,0,'')]),
             (1, bytes ''@S,1,0,*''), (1, [crc_putArray D0 c_poly (bytes ''@S,1,0,'')]),
             (1, bytes ''@S,2,0,*''), (1, [crc_putArray D0 c_poly (bytes ''@S,2,0,'')]),
             (1, bytes ''@S,3,0,*''), (1, [crc_putArray D0 c_poly (bytes ''@S,3,0,'')])])"
proof -
  let ?t2 = "(setEntityState ESTA_NORMAL (CODE_ACTIVE D0) amc_main)\<lparr>m_cnt_motor := 0\<rparr>"
  have t2: "m_uart ?t2 = Some 1" "m_parse ?t2 \<noteq> None" "labels_resolve ?t2"
    "unat (m_cnt_motor ?t2) < 4" "m_top (m_wdog ?t2) = 10"
    using amc_main_ready by (simp_all add: setEntityState_def labels_resolve_def)
  have q: "\<forall>k \<in> set [silent_tick 0, silent_tick 1]. \<not> poll_ready k \<and> inbox k = []
      \<and> clock_check k - clock_reset k \<le> m_top (m_wdog ?t2)"
    using t2(5) by (simp add: silent_tick_simps)
  from main_loop_silent [OF t2(1-4) q, of D0] obtain t1
    where 1: "main_loop D0 [silent_tick 0, silent_tick 1] ?t2 = Returns () t1" by blast
  from stop_request_stops_all_motors [OF amc_main_ready(1) 1] obtain t'
    where "onMain D0 [silent_tick 0, silent_tick 1] amc_main = Returns () t'"
      and "w_tx t' = w_tx t1 @
         [(1, bytes ''@S,0,0,*''), (1, [crc_putArray D0 c_poly (bytes ''@S,0,0,'')]),
          (1, bytes ''@S,1,0,*''), (1, [crc_putArray D0 c_poly (bytes ''@S,1,0,'')]),
          (1, bytes ''@S,2,0,*''), (1, [crc_putArray D0 c_poly (bytes ''@S,2,0,'')]),
          (1, bytes ''@S,3,0,*''), (1, [crc_putArray D0 c_poly (bytes ''@S,3,0,'')])]"
    by blast
  then show ?thesis using amc_main_ready(1) 1 by auto
qed

text \<open>
  The frames as the specification words them: when the text fits \<^verbatim>\<open>m_msg\<close> and the
  port is open, \<^verbatim>\<open>setRPM\<close> writes the text \<^verbatim>\<open>@S,<id>,<value>,*\<close> and then one byte, the
  checksum of the text without its last character, and returns the number of bytes
  written; \<^verbatim>\<open>readParameterAMC\<close> does the same with \<^verbatim>\<open>@R,<id>,<field>,*\<close>.
\<close>

lemma setRPM_frame:
  assumes "m_uart t = Some h" and "fits (set_text motor rpm)"
  shows "\<exists>t'. setRPM D motor rpm t = Returns (int (length (set_text motor rpm)) + 1) t'
     \<and> w_tx t' = w_tx t @
         [(h, bytes (''@S,'' @ dec_int (sint motor) @ '','' @ dec_int (sint rpm) @ '',*'')),
          (h, [crc_putArray D c_poly
                 (bytes (''@S,'' @ dec_int (sint motor) @ '','' @ dec_int (sint rpm) @ '',''))])]"
proof -
  have "butlast (set_text motor rpm) = ''@S,'' @ dec_int (sint motor) @ '','' @ dec_int (sint rpm) @ '',''"
    by (simp add: set_text_def butlast_append)
  then show ?thesis
    using assms by (simp add: setRPM_eq after_send_steady spec_frame_def) (simp add: set_text_def)
qed

lemma readParameterAMC_frame:
  assumes "m_uart t = Some h" and "fits (read_text motor f)"
  shows "\<exists>t'. readParameterAMC D motor f t = Returns () t'
     \<and> w_tx t' = w_tx t @
         [(h, bytes (''@R,'' @ dec_int (sint motor) @ '','' @ field_name f @ '',*'')),
          (h, [crc_putArray D c_poly
                 (bytes (''@R,'' @ dec_int (sint motor) @ '','' @ field_name f @ '',''))])]"
proof -
  have "butlast (read_text motor f) = ''@R,'' @ dec_int (sint motor) @ '','' @ field_name f @ '',''"
    by (simp add: read_text_def butlast_append)
  then show ?thesis
    using assms by (simp add: readParameterAMC_eq after_send_steady spec_frame_def) (simp add: read_text_def)
qed

text \<open>
  C3 fails on the code where the text does not fit: the command for motor 0 with the
  value -10000000 has 16 characters, and with its terminating NUL \<^verbatim>\<open>sprintf\<close> writes 17
  bytes into the 16 bytes of \<^verbatim>\<open>m_msg\<close>.
\<close>

theorem setRPM_overruns_m_msg:
  "length (set_text 0 (- 10000000)) = 16
   \<and> setRPM D 0 (- 10000000) t = Undefined BufferOverflow"
  by (simp add: setRPM_eq fits_def set_text_def dec_int_def dec_nat.simps c_max_buffer_def)

lemma consume_routes:
  assumes u: "m_uart t = Some h" and v: "int_of_float (msg_value msg) = Some rpm"
    and f: "fits (set_text 0 rpm)" "fits (set_text 1 rpm)" "fits (set_text 2 rpm)" "fits (set_text 3 rpm)"
  shows "consume D msg t =
     Returns ()
       (if msg_id msg = 0 then after_send D (set_text 1 rpm) h (after_send D (set_text 0 rpm) h t)
        else if msg_id msg = 1 then after_send D (set_text 3 rpm) h (after_send D (set_text 2 rpm) h t)
        else t)"
  using assms
  by (simp add: consume_def setRPM_float_def setRPM_eq next_do_def bind_def after_send_steady)

lemma consume_other_id:
  "msg_id msg \<noteq> 0 \<Longrightarrow> msg_id msg \<noteq> 1 \<Longrightarrow> consume D msg t = Returns () t"
  by (simp add: consume_def)

text \<open>
  C9 fails on the code for a message whose value does not fit: with id 1 and the value
  100000000 the command for motor 2 has 16 characters and overruns \<^verbatim>\<open>m_msg\<close>.
\<close>

theorem consume_overruns_m_msg:
  "int_of_float 100000000 = Some 100000000
   \<and> length (set_text 2 100000000) = 16
   \<and> consume D \<lparr>msg_id = 1, msg_value = 100000000\<rparr> t = Undefined BufferOverflow"
  by (simp add: consume_def setRPM_float_def int_of_float_def setRPM_eq fits_def set_text_def
      dec_int_def dec_nat.simps c_max_buffer_def next_do_def bind_def)

section \<open>Entity reservation\<close>

lemma resolve_append:
  "resolve (db @ [(label, eid, owner)]) l =
     (case resolve db l of Some i \<Rightarrow> Some i | None \<Rightarrow> if l = label then Some eid else None)"
  by (auto simp: resolve_def map_add_def split: option.splits)

lemma reserve_idem:
  assumes "reserve label task db = Inr (eid, db')"
  shows "reserve label task db' = Inr (eid, db') \<and> resolve db' label = Some eid"
proof (cases "map_of db label")
  case None
  with assms have "db' = db @ [(label, eid, task)]"
    by (auto simp: reserve_def)
  with None show ?thesis by (simp add: reserve_def resolve_def map_add_def)
next
  case (Some a)
  with assms show ?thesis
    by (cases a) (auto simp: reserve_def resolve_def split: if_splits)
qed

lemma reservation_step:
  "(case resolveEntity (motor_elabels (m_args t) i) t of
      Returns _ t1 \<Rightarrow> Returns () t1
    | Throws (NonexistentLabel _) t1 \<Rightarrow>
        bind (reserveEntity (motor_elabels (m_args t1) i) t1) (\<lambda>_. Returns ())
    | Throws e t1 \<Rightarrow> Throws e t1
    | Undefined u \<Rightarrow> Undefined u)
   = Returns () (reserved_with (motor_elabels (m_args t) i) t)"
  by (auto simp: resolveEntity_def reserveEntity_def reserve_def reserved_with_def bind_def resolve_def
      split: option.splits)

lemma reserved_with_simps:
  "m_args (reserved_with l t) = m_args t"
  "m_name (reserved_with l t) = m_name t"
  "resolve (w_entities (reserved_with l t)) l \<noteq> None"
  "resolve (w_entities t) l' = Some eid \<Longrightarrow> resolve (w_entities (reserved_with l t)) l' = Some eid"
  "resolve (w_entities t) l \<noteq> None \<Longrightarrow> reserved_with l t = t"
  by (auto simp: reserved_with_def resolve_append)

lemma reserved_with_entries:
  "resolve (w_entities t) l' \<noteq> None \<Longrightarrow>
     filter (\<lambda>e. fst e = l') (w_entities (reserved_with l t)) = filter (\<lambda>e. fst e = l') (w_entities t)"
  by (auto simp: reserved_with_def)

lemma resolve_None_iff: "resolve db l = None \<longleftrightarrow> l \<notin> fst ` set db"
  by (simp add: resolve_def map_of_eq_None_iff)

lemma reserved_with_distinct:
  "distinct (map fst (w_entities t)) \<Longrightarrow> distinct (map fst (w_entities (reserved_with l t)))"
  by (auto simp: reserved_with_def resolve_None_iff)

lemma reservation_loop:
  "\<exists>t'. onEntityReservation_loop js t = Returns () t'
     \<and> m_args t' = m_args t
     \<and> (\<forall>i \<in> set js. resolve (w_entities t') (motor_elabels (m_args t) i) \<noteq> None)
     \<and> (\<forall>l eid. resolve (w_entities t) l = Some eid \<longrightarrow> resolve (w_entities t') l = Some eid)
     \<and> (\<forall>l. resolve (w_entities t) l \<noteq> None \<longrightarrow>
           filter (\<lambda>e. fst e = l) (w_entities t') = filter (\<lambda>e. fst e = l) (w_entities t))
     \<and> (distinct (map fst (w_entities t)) \<longrightarrow> distinct (map fst (w_entities t')))"
proof (induction js arbitrary: t)
  case Nil
  show ?case by simp
next
  case (Cons i js)
  let ?t1 = "reserved_with (motor_elabels (m_args t) i) t"
  have step: "onEntityReservation_loop (i # js) t = onEntityReservation_loop js ?t1"
    by (simp add: reservation_step next_do_def bind_def)
  from Cons.IH [of ?t1] obtain t' where
    r: "onEntityReservation_loop js ?t1 = Returns () t'"
    and a: "m_args t' = m_args ?t1"
    and b: "\<forall>i \<in> set js. resolve (w_entities t') (motor_elabels (m_args ?t1) i) \<noteq> None"
    and c: "\<forall>l eid. resolve (w_entities ?t1) l = Some eid \<longrightarrow> resolve (w_entities t') l = Some eid"
    and d: "\<forall>l. resolve (w_entities ?t1) l \<noteq> None \<longrightarrow>
           filter (\<lambda>e. fst e = l) (w_entities t') = filter (\<lambda>e. fst e = l) (w_entities ?t1)"
    and e: "distinct (map fst (w_entities ?t1)) \<longrightarrow> distinct (map fst (w_entities t'))"
    by blast
  have 1: "m_args t' = m_args t" using a by (simp add: reserved_with_simps)
  have 2: "\<forall>j \<in> set (i # js). resolve (w_entities t') (motor_elabels (m_args t) j) \<noteq> None"
  proof -
    obtain eid where "resolve (w_entities ?t1) (motor_elabels (m_args t) i) = Some eid"
      using reserved_with_simps(3) [of "motor_elabels (m_args t) i" t] by blast
    with c have "resolve (w_entities t') (motor_elabels (m_args t) i) = Some eid" by blast
    with b show ?thesis by (simp add: reserved_with_simps)
  qed
  have 3: "\<forall>l eid. resolve (w_entities t) l = Some eid \<longrightarrow> resolve (w_entities t') l = Some eid"
    using c reserved_with_simps(4) by blast
  have 4: "\<forall>l. resolve (w_entities t) l \<noteq> None \<longrightarrow>
           filter (\<lambda>e. fst e = l) (w_entities t') = filter (\<lambda>e. fst e = l) (w_entities t)"
  proof (intro allI impI)
    fix l assume l: "resolve (w_entities t) l \<noteq> None"
    then obtain eid where "resolve (w_entities t) l = Some eid" by blast
    then have "resolve (w_entities ?t1) l \<noteq> None" using reserved_with_simps(4) by fastforce
    with d have "filter (\<lambda>e. fst e = l) (w_entities t') = filter (\<lambda>e. fst e = l) (w_entities ?t1)"
      by blast
    then show "filter (\<lambda>e. fst e = l) (w_entities t') = filter (\<lambda>e. fst e = l) (w_entities t)"
      using reserved_with_entries [OF l] by simp
  qed
  have 5: "distinct (map fst (w_entities t)) \<longrightarrow> distinct (map fst (w_entities t'))"
    using e reserved_with_distinct by blast
  show ?case using step r 1 2 3 4 5 by auto
qed

lemma reservation_loop_resolved:
  "\<forall>i \<in> set js. resolve (w_entities t) (motor_elabels (m_args t) i) \<noteq> None \<Longrightarrow>
     onEntityReservation_loop js t = Returns () t"
proof (induction js)
  case Nil
  show ?case by simp
next
  case (Cons i js)
  then have "reserved_with (motor_elabels (m_args t) i) t = t"
    by (simp add: reserved_with_simps)
  then show ?case using Cons by (simp add: reservation_step next_do_def bind_def)
qed

text \<open>
  C4: reserving a label that the same task has reserved returns the same id and leaves
  the database as it is. \<^verbatim>\<open>onEntityReservation\<close> always returns; afterwards the labels
  of all motors resolve, and a second run changes nothing. A label that resolved before
  keeps its id and gets no further entry, and if the labels of the database were distinct
  they still are.
\<close>

theorem reservation_idempotent:
  "(reserve label task db = Inr (eid, db') \<longrightarrow>
      reserve label task db' = Inr (eid, db') \<and> resolve db' label = Some eid)
   \<and> (\<exists>t'. onEntityReservation t = Returns () t'
         \<and> labels_resolve t'
         \<and> onEntityReservation t' = Returns () t'
         \<and> (\<forall>l i. resolve (w_entities t) l = Some i \<longrightarrow>
               resolve (w_entities t') l = Some i
               \<and> filter (\<lambda>e. fst e = l) (w_entities t') = filter (\<lambda>e. fst e = l) (w_entities t))
         \<and> (distinct (map fst (w_entities t)) \<longrightarrow> distinct (map fst (w_entities t'))))
   \<and> (labels_resolve t \<longrightarrow> onEntityReservation t = Returns () t)"
proof -
  from reservation_loop [of "[0 ..< c_max_motors]" t] obtain t' where
    r: "onEntityReservation t = Returns () t'"
    and a: "m_args t' = m_args t"
    and b: "\<forall>i \<in> set [0 ..< c_max_motors]. resolve (w_entities t') (motor_elabels (m_args t) i) \<noteq> None"
    and c: "\<forall>l eid. resolve (w_entities t) l = Some eid \<longrightarrow> resolve (w_entities t') l = Some eid"
    and d: "\<forall>l. resolve (w_entities t) l \<noteq> None \<longrightarrow>
           filter (\<lambda>e. fst e = l) (w_entities t') = filter (\<lambda>e. fst e = l) (w_entities t)"
    and e: "distinct (map fst (w_entities t)) \<longrightarrow> distinct (map fst (w_entities t'))"
    unfolding onEntityReservation_def by blast
  have l: "labels_resolve t'" using a b by (simp add: labels_resolve_def)
  then have "\<forall>i \<in> set [0 ..< c_max_motors]. resolve (w_entities t') (motor_elabels (m_args t') i) \<noteq> None"
    by (simp add: labels_resolve_def)
  then have again: "onEntityReservation t' = Returns () t'"
    unfolding onEntityReservation_def by (rule reservation_loop_resolved)
  have keep: "\<forall>l i. resolve (w_entities t) l = Some i \<longrightarrow>
               resolve (w_entities t') l = Some i
               \<and> filter (\<lambda>e. fst e = l) (w_entities t') = filter (\<lambda>e. fst e = l) (w_entities t)"
    using c d by auto
  have same: "labels_resolve t \<longrightarrow> onEntityReservation t = Returns () t"
  proof
    assume "labels_resolve t"
    then have "\<forall>i \<in> set [0 ..< c_max_motors]. resolve (w_entities t) (motor_elabels (m_args t) i) \<noteq> None"
      by (simp add: labels_resolve_def)
    then show "onEntityReservation t = Returns () t"
      unfolding onEntityReservation_def by (rule reservation_loop_resolved)
  qed
  show ?thesis using reserve_idem [of label task db eid db'] r l again keep e same by blast
qed

theorem reservation_idempotent_witness:
  "reserve ''Motor'' ''Actuators.AMC'' [] = Inr (1, [(''Motor'', 1, ''Actuators.AMC'')])
   \<and> reserve ''Motor'' ''Actuators.AMC'' [(''Motor'', 1, ''Actuators.AMC'')]
       = Inr (1, [(''Motor'', 1, ''Actuators.AMC'')])
   \<and> labels_resolve amc_main
   \<and> onEntityReservation amc_main = Returns () amc_main
   \<and> distinct (map fst (w_entities amc0))
   \<and> (\<exists>t'. onEntityReservation amc0 = Returns () t' \<and> onEntityReservation t' = Returns () t'
         \<and> distinct (map fst (w_entities t')))"
proof -
  have a: "reserve ''Motor'' ''Actuators.AMC'' [] = Inr (1, [(''Motor'', 1, ''Actuators.AMC'')])"
    by (simp add: reserve_def fresh_id_def)
  have b: "distinct (map fst (w_entities amc0))" by (simp add: amc0_def)
  show ?thesis
    using a b amc_main_ready(3)
      reservation_idempotent [of "''Motor''" "''Actuators.AMC''" "[]" 1
        "[(''Motor'', 1, ''Actuators.AMC'')]" amc0]
      reservation_idempotent [of "''Motor''" "''Actuators.AMC''" "[]" 1
        "[(''Motor'', 1, ''Actuators.AMC'')]" amc_main]
    by blast
qed

end
